theory Spec2Isabelle
  imports Main "HOL-Library.Char_ord" "HOL-Library.List_Lexorder" "HOL-Library.Multiset"
begin

section \<open>JavaScript values used throughout\<close>

text \<open>
  An exception is a value: \<open>TypeError\<close> for a property read on \<open>null\<close> or
  \<open>undefined\<close>, \<open>Error\<close> for the \<open>throw new Error(...)\<close> of the library. A
  function that may throw returns \<open>Inl (e, s)\<close>, the exception with the state as the
  throw left it, or \<open>Inr s\<close>.
\<close>

datatype error = TypeError string | Error string

type_synonym 's result = "(error \<times> 's) + 's"

definition and_then :: "'s result \<Rightarrow> ('s \<Rightarrow> 's result) \<Rightarrow> 's result" where
  "and_then r f = (case r of Inl e \<Rightarrow> Inl e | Inr s \<Rightarrow> f s)"

text \<open>\<open>Array.prototype.indexOf\<close>: the first index holding the element, or -1.\<close>

fun indexOf_from :: "'a list \<Rightarrow> 'a \<Rightarrow> int \<Rightarrow> int" where
  "indexOf_from [] x i = -1"
| "indexOf_from (y # ys) x i = (if y = x then i else indexOf_from ys x (i + 1))"

definition indexOf :: "'a list \<Rightarrow> 'a \<Rightarrow> int" where
  "indexOf xs x = indexOf_from xs x 0"

text \<open>
  \<open>Array.prototype.splice(index, 1)\<close>: a negative index counts from the end (so -1
  removes the last element), an index past the end removes nothing.
\<close>

definition splice1 :: "int \<Rightarrow> 'a list \<Rightarrow> 'a list" where
  "splice1 index xs =
     (let len = int (length xs);
          start = (if index < 0 then max (len + index) 0 else min index len)
      in take (nat start) xs @ drop (nat start + 1) xs)"

text \<open>\<open>Array.prototype.pop\<close> returns \<open>undefined\<close> (here \<open>None\<close>) on an empty array.\<close>

definition pop :: "'a option list \<Rightarrow> 'a option \<times> 'a option list" where
  "pop xs = (if xs = [] then (None, []) else (last xs, butlast xs))"

section \<open>Component constructors and query keys\<close>

text \<open>
  A component type is a JavaScript constructor: an object with an identity and a
  \<open>name\<close> property. Two constructors may carry the same name; \<open>indexOf\<close> compares them by
  identity, which is the pair here. Names are strings of the code units U+0000 to
  U+00FF (Latin-1), the characters of \<open>string\<close>.
\<close>

datatype ctor = Ctor (uid: nat) (cname: string)

text \<open>\<open>getName(Component)\<close> returns \<open>Component.name\<close>.\<close>

definition getName :: "ctor \<Rightarrow> string" where
  "getName C = cname C"

text \<open>
  An element of the list given to a query: a constructor itself, or the object
  \<open>{operator, Component}\<close> that \<open>Not\<close> builds (\<open>typeof T === "object"\<close>).
\<close>

datatype qentry = Plain ctor | Obj string ctor

definition Not_c :: "ctor \<Rightarrow> qentry" where
  "Not_c C = Obj ''not'' C"

text \<open>
  \<open>String.prototype.toLowerCase\<close> on the code units U+0000 to U+00FF: the letters A to Z
  (U+0041 to U+005A) and the capital letters of Latin-1 (U+00C0 to U+00DE, without the
  multiplication sign U+00D7) move by 32; every other code unit of the range, U+00DF
  and U+00B5 among them, is its own lowercase.
\<close>

definition lower_char :: "char \<Rightarrow> char" where
  "lower_char c =
     (if (CHR ''A'' \<le> c \<and> c \<le> CHR ''Z'') \<or> (CHR 0xC0 \<le> c \<and> c \<le> CHR 0xDE \<and> c \<noteq> CHR 0xD7)
      then char_of (of_char c + (32::nat)) else c)"

definition toLowerCase :: "string \<Rightarrow> string" where
  "toLowerCase s = map lower_char s"

text \<open>\<open>componentPropertyName\<close>: the name with its first character lowercased.\<close>

definition componentPropertyName :: "ctor \<Rightarrow> string" where
  "componentPropertyName C =
     (case getName C of [] \<Rightarrow> [] | c # cs \<Rightarrow> lower_char c # cs)"

text \<open>\<open>Array.prototype.join\<close>.\<close>

fun join :: "string \<Rightarrow> string list \<Rightarrow> string" where
  "join sep [] = []"
| "join sep [x] = x"
| "join sep (x # y # ys) = x @ sep @ join sep (y # ys)"

text \<open>
  The loop of \<open>queryKey\<close>: \<open>names\<close> is the accumulator the source pushes to, the list is
  what is left of \<open>Components\<close> from index \<open>n\<close> on.
\<close>

fun queryKey_names :: "qentry list \<Rightarrow> string list \<Rightarrow> string list" where
  "queryKey_names [] names = names"
| "queryKey_names (Obj operator C # Ts) names =
     queryKey_names Ts
       (names @ [(if operator = ''not'' then ''!'' else operator) @ getName C])"
| "queryKey_names (Plain C # Ts) names = queryKey_names Ts (names @ [getName C])"

text \<open>
  \<open>names.map(toLowerCase).sort().join("-")\<close>. The default \<open>sort\<close> orders strings by
  their code units, the lexicographic order of \<open>string\<close>; equal strings cannot be told
  apart, so every sorting algorithm returns the list \<open>sort\<close> returns.
\<close>

definition queryKey :: "qentry list \<Rightarrow> string" where
  "queryKey Components = join ''-'' (sort (map toLowerCase (queryKey_names Components [])))"

text \<open>The key as the specification words it: one token per entry.\<close>

fun token :: "qentry \<Rightarrow> string" where
  "token (Plain C) = getName C"
| "token (Obj operator C) = (if operator = ''not'' then ''!'' else operator) @ getName C"

definition queryKey_spec :: "qentry list \<Rightarrow> string" where
  "queryKey_spec L = join ''-'' (sort (map (toLowerCase \<circ> token) L))"

section \<open>EventDispatcher\<close>

text \<open>
  \<open>_listeners\<close> maps an event name to the array of its listeners; \<open>stats\<close> is the pair of
  counters \<open>fired\<close> and \<open>handled\<close>. A listener is a value of type \<open>'h\<close>; what calling it
  does is given by a function \<open>call\<close>: it receives the payload and the pair of the
  dispatcher (the \<open>this\<close> of \<open>array[i].call(this, entity, component)\<close>) and the state
  \<open>'u\<close> the listener closes over, and returns the new pair or throws.
\<close>

record 'h EventDispatcher =
  listeners :: "string \<rightharpoonup> 'h list"
  fired :: nat
  handled :: nat

definition EventDispatcher_new :: "'h EventDispatcher" where
  "EventDispatcher_new = \<lparr>listeners = Map.empty, fired = 0, handled = 0\<rparr>"

definition addEventListener :: "string \<Rightarrow> 'h \<Rightarrow> 'h EventDispatcher \<Rightarrow> 'h EventDispatcher" where
  "addEventListener eventName listener d =
     (let arr = (case listeners d eventName of None \<Rightarrow> [] | Some a \<Rightarrow> a)
      in d\<lparr>listeners := (listeners d)(eventName \<mapsto>
             (if indexOf arr listener = -1 then arr @ [listener] else arr))\<rparr>)"

definition hasEventListener :: "string \<Rightarrow> 'h \<Rightarrow> 'h EventDispatcher \<Rightarrow> bool" where
  "hasEventListener eventName listener d =
     (case listeners d eventName of None \<Rightarrow> False | Some a \<Rightarrow> indexOf a listener \<noteq> -1)"

definition removeEventListener :: "string \<Rightarrow> 'h \<Rightarrow> 'h EventDispatcher \<Rightarrow> 'h EventDispatcher" where
  "removeEventListener eventName listener d =
     (case listeners d eventName of
        None \<Rightarrow> d
      | Some listenerArray \<Rightarrow>
          (let index = indexOf listenerArray listener
           in if index \<noteq> -1
              then d\<lparr>listeners := (listeners d)(eventName \<mapsto> splice1 index listenerArray)\<rparr>
              else d))"

text \<open>
  The loop of \<open>dispatchEvent\<close> over the copy \<open>array\<close> of the listener array. There is no
  \<open>try\<close> around the call: an exception leaves the loop and the function.
\<close>

fun call_listeners ::
  "('h \<Rightarrow> 'p \<Rightarrow> 'h EventDispatcher \<times> 'u \<Rightarrow> ('h EventDispatcher \<times> 'u) result) \<Rightarrow>
   'h list \<Rightarrow> 'p \<Rightarrow> 'h EventDispatcher \<times> 'u \<Rightarrow> ('h EventDispatcher \<times> 'u) result" where
  "call_listeners call [] payload s = Inr s"
| "call_listeners call (h # hs) payload s =
     (case call h payload s of
        Inl e \<Rightarrow> Inl e
      | Inr s' \<Rightarrow> call_listeners call hs payload s')"

definition dispatchEvent ::
  "('h \<Rightarrow> 'p \<Rightarrow> 'h EventDispatcher \<times> 'u \<Rightarrow> ('h EventDispatcher \<times> 'u) result) \<Rightarrow>
   string \<Rightarrow> 'p \<Rightarrow> 'h EventDispatcher \<times> 'u \<Rightarrow> ('h EventDispatcher \<times> 'u) result" where
  "dispatchEvent call eventName payload s =
     (case s of (d, u) \<Rightarrow>
        (let d1 = d\<lparr>fired := fired d + 1\<rparr>
         in case listeners d1 eventName of
              None \<Rightarrow> Inr (d1, u)
            | Some listenerArray \<Rightarrow> call_listeners call listenerArray payload (d1, u)))"

definition resetCounters :: "'h EventDispatcher \<Rightarrow> 'h EventDispatcher" where
  "resetCounters d = d\<lparr>fired := 0, handled := 0\<rparr>"



section \<open>ObjectPool\<close>

text \<open>
  \<open>freeList\<close> may hold \<open>undefined\<close> (\<open>None\<close>): \<open>release\<close> pushes whatever it is given.
  The field \<open>count\<close> is \<open>pool_count\<close>. \<open>createElement\<close> is a parameter: it returns the new
  object and the state it has changed (\<open>new Entity()\<close> takes the next id).
\<close>

record 'a ObjectPool =
  freeList :: "'a option list"
  pool_count :: nat
  initialObject :: 'a

definition ObjectPool_new :: "('s \<Rightarrow> 'a \<times> 's) \<Rightarrow> 's \<Rightarrow> 'a ObjectPool \<times> 's" where
  "ObjectPool_new createElement s =
     (case createElement s of (x, s') \<Rightarrow>
        (\<lparr>freeList = [], pool_count = 0, initialObject = x\<rparr>, s'))"

fun expand_loop ::
  "('s \<Rightarrow> 'a \<times> 's) \<Rightarrow> nat \<Rightarrow> 'a ObjectPool \<times> 's \<Rightarrow> 'a ObjectPool \<times> 's" where
  "expand_loop createElement 0 ps = ps"
| "expand_loop createElement (Suc n) ps =
     (case ps of (p, s) \<Rightarrow>
        (case createElement s of (x, s') \<Rightarrow>
           expand_loop createElement n (p\<lparr>freeList := freeList p @ [Some x]\<rparr>, s')))"

definition expand ::
  "('s \<Rightarrow> 'a \<times> 's) \<Rightarrow> nat \<Rightarrow> 'a ObjectPool \<times> 's \<Rightarrow> 'a ObjectPool \<times> 's" where
  "expand createElement n ps =
     (case expand_loop createElement n ps of (p, s) \<Rightarrow> (p\<lparr>pool_count := pool_count p + n\<rparr>, s))"

text \<open>
  \<open>Math.round(count * 0.2)\<close>: a fifth of a natural number is never half-way between two
  integers, so rounding to the nearest is \<open>(2 * count + 5) div 10\<close>.
\<close>

definition round_fifth :: "nat \<Rightarrow> nat" where
  "round_fifth n = (2 * n + 5) div 10"

text \<open>
  \<open>aquire\<close>: grow when the free list is empty, pop, then
  \<open>if (item.__init) item.__init(); else if (item.copy) item.copy(this.initialObject)\<close>.
  The three cases are the parameter \<open>restore\<close>, given the item and the initial object;
  reading \<open>__init\<close> of \<open>undefined\<close> throws.
\<close>

definition aquire ::
  "('s \<Rightarrow> 'a \<times> 's) \<Rightarrow> ('a \<Rightarrow> 'a \<Rightarrow> 's \<Rightarrow> 'a \<times> 's) \<Rightarrow> 'a ObjectPool \<times> 's \<Rightarrow>
   (error \<times> 'a ObjectPool \<times> 's) + ('a \<times> 'a ObjectPool \<times> 's)" where
  "aquire createElement restore ps =
     (case (if length (freeList (fst ps)) \<le> 0
            then expand createElement (round_fifth (pool_count (fst ps)) + 1) ps
            else ps) of
        (p, s) \<Rightarrow>
          (case pop (freeList p) of
             (None, rest) \<Rightarrow>
               Inl (TypeError ''Cannot read properties of undefined'', (p\<lparr>freeList := rest\<rparr>, s))
           | (Some item, rest) \<Rightarrow>
               (case restore item (initialObject p) s of
                  (item', s') \<Rightarrow> Inr (item', p\<lparr>freeList := rest\<rparr>, s'))))"

definition release :: "'a option \<Rightarrow> 'a ObjectPool \<Rightarrow> 'a ObjectPool" where
  "release item p = p\<lparr>freeList := freeList p @ [item]\<rparr>"

definition totalSize :: "'a ObjectPool \<Rightarrow> nat" where
  "totalSize p = pool_count p"

definition totalFree :: "'a ObjectPool \<Rightarrow> nat" where
  "totalFree p = length (freeList p)"

text \<open>\<open>count - freeList.length\<close> is a JavaScript number: it can be negative.\<close>

definition totalUsed :: "'a ObjectPool \<Rightarrow> int" where
  "totalUsed p = int (pool_count p) - int (length (freeList p))"

section \<open>Components, entities, queries, systems and the world\<close>

text \<open>
  A component instance: the constructor that made it and its own properties (numbers
  here). A component class is described by what \<open>new T()\<close> returns and by the two
  optional methods the pool looks for, \<open>__init()\<close> and \<open>copy(src)\<close>, as functions on
  the properties of the instance. An instance is referenced from one place at a time
  (a free list, or the \<open>_components\<close> of one entity), so it is stored by value.
\<close>

type_synonym ref = nat

type_synonym fields = "string \<rightharpoonup> int"

record cinstance =
  con :: ctor
  props :: fields

record cdef =
  construct :: fields
  init_hook :: "(fields \<Rightarrow> fields) option"
  copy_hook :: "(fields \<Rightarrow> fields \<Rightarrow> fields) option"

text \<open>
  An \<open>Entity\<close> object. \<open>has_world\<close> tells whether \<open>_world\<close> is the manager or
  \<open>null\<close>; \<open>eid\<close> is \<open>id\<close>; \<open>queries\<close> holds the queries the entity is in, each named
  by its key (the manager keeps one query per key).
\<close>

record Entity =
  has_world :: bool
  eid :: nat
  ComponentTypes :: "ctor list"
  components :: "string \<rightharpoonup> cinstance"
  tags :: "string list"
  queries :: "string list"
  componentsToRemove :: "ctor list"

text \<open>
  The closures that the constructor of \<open>System\<close> subscribes to a query. Both close
  over the object \<open>events\<close> = \<open>this.events[name]\<close> of the system under construction
  (named by the identity \<open>sid\<close> of the system and the name of the query) and
  \<open>eventName\<close>; the second also over \<open>event.components\<close>, which may be missing.
\<close>

datatype listener =
    PushUnique nat string string
  | PushFiltered nat string string "ctor list option"

text \<open>The second argument of a listener: nothing, a component instance or a constructor.\<close>

datatype comp_arg = NoArg | InstArg cinstance | CtorArg ctor

record Query =
  Components :: "ctor list"
  NotComponents :: "ctor list"
  entities :: "ref list"
  eventDispatcher :: "listener EventDispatcher"
  reactive :: bool
  key :: string

text \<open>
  The object \<open>init()\<close> returns. A JavaScript object has each key once: in the lists of
  named queries and named events the names are distinct. The section \<open>events\<close> of a
  config (listeners on the event bus of the world) is not part of this model.
\<close>

record evconfig =
  event :: string
  ev_components :: "ctor list option"

record qconfig =
  q_components :: "qentry list option"
  q_events :: "(string \<times> evconfig) list option"

record config =
  c_queries :: "(string \<times> qconfig) list option"

text \<open>
  A class extending \<open>System\<close>: the name of its constructor, what its \<open>init\<close> returns
  (\<open>None\<close> when it has no \<open>init\<close> or returns nothing) and whether it has \<open>execute\<close>.
\<close>

record sysclass =
  cl_name :: string
  cl_init :: "config option"
  cl_execute :: bool

text \<open>
  A \<open>System\<close> object. \<open>sid\<close> is its identity, \<open>sname\<close> is \<open>constructor.name\<close>,
  \<open>queries_s\<close> is \<open>_queries\<close> (query name to the key of the query); \<open>queries[name]\<close> is
  the entity array of that query itself and is read from the query. \<open>events\<close> is
  \<open>events[name][eventName]\<close>, the buffers.
\<close>

record System =
  sid :: nat
  sname :: string
  enabled :: bool
  initialized :: bool
  priority :: int
  order :: nat
  executeTime :: int
  queries_s :: "(string \<times> string) list"
  events :: "(string \<times> (string \<times> ref list) list) list"
  config :: "config option"
  has_execute :: bool

text \<open>
  The world, with its managers flattened into one record:
  \<^item> \<open>heap\<close>, \<open>nobjects\<close>: the \<open>Entity\<close> objects constructed so far, by reference;
    \<open>nextId\<close> is the global counter of ids;
  \<^item> of \<open>EntityManager\<close>: \<open>em_entities\<close> (\<open>_entities\<close>), \<open>em_tags\<close> (\<open>_tags\<close>),
    \<open>em_eventDispatcher\<close>, \<open>entityPool\<close>, \<open>entitiesWithComponentsToRemove\<close>,
    \<open>entitiesToRemove\<close>;
  \<^item> of \<open>QueryManager\<close>: \<open>qm_queries\<close> (\<open>_queries\<close>, in insertion order, each query
    under its \<open>key\<close>);
  \<^item> of \<open>ComponentManager\<close>: \<open>componentPool\<close> (\<open>_componentPool\<close>, by property name, in
    insertion order), \<open>numComponents\<close> (\<open>None\<close> is \<open>undefined\<close>);
  \<^item> of \<open>SystemManager\<close>: \<open>systems\<close>; \<open>nsystems\<close> counts the \<open>System\<close> objects
    constructed;
  \<^item> of \<open>World\<close>: \<open>enabled_w\<close>, and \<open>console\<close>, what \<open>console.log\<close> has printed.
\<close>

record stats_query =
  numComponents_q :: nat
  numEntities_q :: nat

record stats_pool =
  used :: int
  size_p :: nat

record stats_entities =
  numEntities :: nat
  numQueries :: nat
  queries_st :: "(string \<times> stats_query) list"
  numComponentPool :: nat
  componentPool_st :: "(string \<times> stats_pool) list"
  eventDispatcher_st :: "nat \<times> nat"

record stats_system =
  numSystems :: nat
  systems_st :: "(string \<times> (string \<times> stats_query) list) list"

record stats_world =
  entities_st :: stats_entities
  system_st :: stats_system

record world =
  heap :: "ref \<Rightarrow> Entity"
  nobjects :: nat
  nextId :: nat
  em_entities :: "ref list"
  em_tags :: "string \<rightharpoonup> ref list"
  em_eventDispatcher :: "listener EventDispatcher"
  entityPool :: "ref ObjectPool"
  entitiesWithComponentsToRemove :: "ref list"
  entitiesToRemove :: "ref list"
  qm_queries :: "Query list"
  componentPool :: "(string \<times> cinstance ObjectPool) list"
  numComponents :: "string \<rightharpoonup> int"
  systems :: "System list"
  nsystems :: nat
  enabled_w :: bool
  console :: "stats_world list"

section \<open>Buffers of a system and the listeners that fill them\<close>

text \<open>Apply \<open>f\<close> to the array \<open>events[name][eventName]\<close> of the system \<open>i\<close>.\<close>

definition upd_buffer ::
  "nat \<Rightarrow> string \<Rightarrow> string \<Rightarrow> (ref list \<Rightarrow> ref list) \<Rightarrow> System list \<Rightarrow> System list" where
  "upd_buffer i name eventName f sys =
     map (\<lambda>s. if sid s = i
              then s\<lparr>events :=
                     map (\<lambda>(n, evs).
                            if n = name
                            then (n, map (\<lambda>(en, buf). if en = eventName then (en, f buf) else (en, buf)) evs)
                            else (n, evs))
                         (events s)\<rparr>
              else s)
         sys"

text \<open>
  The two closures of the constructor of \<open>System\<close>:
  \<^verbatim>\<open>entity => { if (events[eventName].indexOf(entity) === -1) events[eventName].push(entity); }\<close>
  and
  \<^verbatim>\<open>(entity, component) => { if (event.components.indexOf(component.constructor) !== -1) events[eventName].push(entity); }\<close>
  In the second, \<open>event.components\<close> or \<open>component\<close> may be \<open>undefined\<close>, and reading a
  property of it throws; the constructor of a constructor is \<open>Function\<close>, which is no
  component.
\<close>

fun call_listener ::
  "listener \<Rightarrow> ref \<times> comp_arg \<Rightarrow> listener EventDispatcher \<times> System list \<Rightarrow>
   (listener EventDispatcher \<times> System list) result" where
  "call_listener (PushUnique i name eventName) payload (d, sys) =
     Inr (d, upd_buffer i name eventName
               (\<lambda>buf. if indexOf buf (fst payload) = -1 then buf @ [fst payload] else buf) sys)"
| "call_listener (PushFiltered i name eventName comps) payload (d, sys) =
     (case comps of
        None \<Rightarrow> Inl (TypeError ''Cannot read properties of undefined (reading indexOf)'', (d, sys))
      | Some cs \<Rightarrow>
          (case snd payload of
             NoArg \<Rightarrow>
               Inl (TypeError ''Cannot read properties of undefined (reading constructor)'', (d, sys))
           | InstArg component \<Rightarrow>
               (if indexOf cs (con component) \<noteq> -1
                then Inr (d, upd_buffer i name eventName (\<lambda>buf. buf @ [fst payload]) sys)
                else Inr (d, sys))
           | CtorArg C \<Rightarrow> Inr (d, sys)))"

definition ENTITY_ADDED :: string where "ENTITY_ADDED = ''Query#ENTITY_ADDED''"
definition ENTITY_REMOVED_q :: string where "ENTITY_REMOVED_q = ''Query#ENTITY_REMOVED''"
definition COMPONENT_CHANGED :: string where "COMPONENT_CHANGED = ''Query#COMPONENT_CHANGED''"
definition ENTITY_CREATED :: string where "ENTITY_CREATED = ''EntityManager#ENTITY_CREATE''"
definition ENTITY_REMOVED :: string where "ENTITY_REMOVED = ''EntityManager#ENTITY_REMOVED''"
definition COMPONENT_ADDED :: string where "COMPONENT_ADDED = ''EntityManager#COMPONENT_ADDED''"
definition COMPONENT_REMOVE :: string where "COMPONENT_REMOVE = ''EntityManager#COMPONENT_REMOVE''"

section \<open>Query\<close>

text \<open>
  In the functions of a query the query object travels beside the world; the list
  \<open>qm_queries\<close> of the world is rewritten once the caller's loop over the queries ends.
  \<open>Query_dispatch\<close> is \<open>this.eventDispatcher.dispatchEvent(eventName, entity, component)\<close>.
\<close>

definition Query_dispatch ::
  "string \<Rightarrow> ref \<times> comp_arg \<Rightarrow> Query \<times> world \<Rightarrow> (Query \<times> world) result" where
  "Query_dispatch eventName payload qw =
     (case qw of (q, w) \<Rightarrow>
        (case dispatchEvent call_listener eventName payload (eventDispatcher q, systems w) of
           Inl (err, (d, sy)) \<Rightarrow> Inl (err, (q\<lparr>eventDispatcher := d\<rparr>, w\<lparr>systems := sy\<rparr>))
         | Inr (d, sy) \<Rightarrow> Inr (q\<lparr>eventDispatcher := d\<rparr>, w\<lparr>systems := sy\<rparr>)))"

definition Query_addEntity :: "ref \<Rightarrow> Query \<times> world \<Rightarrow> (Query \<times> world) result" where
  "Query_addEntity entity qw =
     (case qw of (q, w) \<Rightarrow>
        Query_dispatch ENTITY_ADDED (entity, NoArg)
          (q\<lparr>entities := entities q @ [entity]\<rparr>,
           w\<lparr>heap := (heap w)(entity :=
                (heap w entity)\<lparr>queries := queries (heap w entity) @ [key q]\<rparr>)\<rparr>))"

definition Query_removeEntity :: "ref \<Rightarrow> Query \<times> world \<Rightarrow> (Query \<times> world) result" where
  "Query_removeEntity entity qw =
     (case qw of (q, w) \<Rightarrow>
        (let index = indexOf (entities q) entity
         in if index \<noteq> -1
            then (let index2 = indexOf (queries (heap w entity)) (key q)
                  in Query_dispatch ENTITY_REMOVED_q (entity, NoArg)
                       (q\<lparr>entities := splice1 index (entities q)\<rparr>,
                        w\<lparr>heap := (heap w)(entity :=
                             (heap w entity)\<lparr>queries := splice1 index2 (queries (heap w entity))\<rparr>)\<rparr>))
            else Inr (q, w)))"

text \<open>The two loops of \<open>match\<close>, with the variable \<open>result\<close>.\<close>

fun match_required :: "ctor list \<Rightarrow> ctor list \<Rightarrow> bool \<Rightarrow> bool" where
  "match_required [] types result = result"
| "match_required (C # Cs) types result =
     match_required Cs types (result \<and> indexOf types C \<noteq> -1)"

fun match_forbidden :: "ctor list \<Rightarrow> ctor list \<Rightarrow> bool \<Rightarrow> bool" where
  "match_forbidden [] types result = result"
| "match_forbidden (C # Cs) types result =
     match_forbidden Cs types (result \<and> indexOf types C = -1)"

definition match :: "Query \<Rightarrow> Entity \<Rightarrow> bool" where
  "match q entity =
     match_forbidden (NotComponents q) (ComponentTypes entity)
       (match_required (Components q) (ComponentTypes entity) True)"

definition Query_stats :: "Query \<Rightarrow> stats_query" where
  "Query_stats q = \<lparr>numComponents_q = length (Components q), numEntities_q = length (entities q)\<rparr>"

text \<open>The constructor: the \<open>forEach\<close> that splits the list, then the fill loop.\<close>

fun split_components :: "qentry list \<Rightarrow> ctor list \<times> ctor list \<Rightarrow> ctor list \<times> ctor list" where
  "split_components [] acc = acc"
| "split_components (Obj operator C # Ts) acc =
     split_components Ts (fst acc, snd acc @ [C])"
| "split_components (Plain C # Ts) acc =
     split_components Ts (fst acc @ [C], snd acc)"

fun fill_query :: "ref list \<Rightarrow> Query \<times> world \<Rightarrow> Query \<times> world" where
  "fill_query [] qw = qw"
| "fill_query (entity # es) qw =
     (case qw of (q, w) \<Rightarrow>
        (if match q (heap w entity)
         then fill_query es
                (q\<lparr>entities := entities q @ [entity]\<rparr>,
                 w\<lparr>heap := (heap w)(entity :=
                      (heap w entity)\<lparr>queries := queries (heap w entity) @ [key q]\<rparr>)\<rparr>)
         else fill_query es (q, w)))"

definition Query_new :: "qentry list \<Rightarrow> world \<Rightarrow> (error \<times> world) + (Query \<times> world)" where
  "Query_new Cs w =
     (case split_components Cs ([], []) of
        (req, forb) \<Rightarrow>
          (if length req = 0
           then Inl (Error ''Can not create a query without components'', w)
           else Inr (fill_query (em_entities w)
                       (\<lparr>Components = req, NotComponents = forb, entities = [],
                         eventDispatcher = EventDispatcher_new, reactive = False,
                         key = queryKey Cs\<rparr>, w))))"

section \<open>QueryManager\<close>

text \<open>\<open>for (var queryName in this._queries)\<close>: one step per query, in insertion order.\<close>

fun each_query ::
  "(Query \<times> world \<Rightarrow> (Query \<times> world) result) \<Rightarrow> Query list \<Rightarrow> world \<Rightarrow>
   (Query list \<times> world) result" where
  "each_query f [] w = Inr ([], w)"
| "each_query f (q # qs) w =
     (case f (q, w) of
        Inl (err, (q', w')) \<Rightarrow> Inl (err, (q' # qs, w'))
      | Inr (q', w') \<Rightarrow>
          (case each_query f qs w' of
             Inl (err, (qs', w'')) \<Rightarrow> Inl (err, (q' # qs', w''))
           | Inr (qs', w'') \<Rightarrow> Inr (q' # qs', w'')))"

definition for_queries ::
  "(Query \<times> world \<Rightarrow> (Query \<times> world) result) \<Rightarrow> world \<Rightarrow> world result" where
  "for_queries f w =
     (case each_query f (qm_queries w) w of
        Inl (err, (qs, w')) \<Rightarrow> Inl (err, w'\<lparr>qm_queries := qs\<rparr>)
      | Inr (qs, w') \<Rightarrow> Inr (w'\<lparr>qm_queries := qs\<rparr>))"

definition onEntityRemoved_step :: "ref \<Rightarrow> Query \<times> world \<Rightarrow> (Query \<times> world) result" where
  "onEntityRemoved_step entity qw =
     (case qw of (q, w) \<Rightarrow>
        (if indexOf (queries (heap w entity)) (key q) \<noteq> -1
         then Query_removeEntity entity (q, w)
         else Inr (q, w)))"

definition onEntityRemoved :: "ref \<Rightarrow> world \<Rightarrow> world result" where
  "onEntityRemoved entity w = for_queries (onEntityRemoved_step entity) w"

definition onEntityComponentAdded_step ::
  "ref \<Rightarrow> ctor \<Rightarrow> Query \<times> world \<Rightarrow> (Query \<times> world) result" where
  "onEntityComponentAdded_step entity C qw =
     (case qw of (q, w) \<Rightarrow>
        (if indexOf (NotComponents q) C \<noteq> -1 \<and> indexOf (entities q) entity \<noteq> -1
         then Query_removeEntity entity (q, w)
         else if indexOf (Components q) C = -1 \<or> \<not> match q (heap w entity) \<or>
                 indexOf (entities q) entity \<noteq> -1
         then Inr (q, w)
         else Query_addEntity entity (q, w)))"

definition onEntityComponentAdded :: "ref \<Rightarrow> ctor \<Rightarrow> world \<Rightarrow> world result" where
  "onEntityComponentAdded entity C w = for_queries (onEntityComponentAdded_step entity C) w"

definition onEntityComponentRemoved_step ::
  "ref \<Rightarrow> ctor \<Rightarrow> Query \<times> world \<Rightarrow> (Query \<times> world) result" where
  "onEntityComponentRemoved_step entity C qw =
     (case qw of (q, w) \<Rightarrow>
        (if indexOf (NotComponents q) C \<noteq> -1 \<and> indexOf (entities q) entity = -1
         then Query_addEntity entity (q, w)
         else if indexOf (Components q) C = -1 then Inr (q, w)
         else if \<not> match q (heap w entity) then Inr (q, w)
         else Query_removeEntity entity (q, w)))"

definition onEntityComponentRemoved :: "ref \<Rightarrow> ctor \<Rightarrow> world \<Rightarrow> world result" where
  "onEntityComponentRemoved entity C w = for_queries (onEntityComponentRemoved_step entity C) w"

text \<open>\<open>getQuery\<close> returns the query; here its key, under which the manager holds it.\<close>

definition getQuery :: "qentry list \<Rightarrow> world \<Rightarrow> (error \<times> world) + (string \<times> world)" where
  "getQuery Cs w =
     (let k = queryKey Cs
      in case find (\<lambda>q. key q = k) (qm_queries w) of
           Some query \<Rightarrow> Inr (k, w)
         | None \<Rightarrow>
             (case Query_new Cs w of
                Inl e \<Rightarrow> Inl e
              | Inr (query, w') \<Rightarrow> Inr (k, w'\<lparr>qm_queries := qm_queries w' @ [query]\<rparr>)))"

definition QueryManager_stats :: "world \<Rightarrow> (string \<times> stats_query) list" where
  "QueryManager_stats w = map (\<lambda>q. (key q, Query_stats q)) (qm_queries w)"

section \<open>Entity objects and the pools of components\<close>

text \<open>\<open>new Entity()\<close>, as the pool calls it: a new object with the next id and no world.\<close>

definition Entity_new :: "world \<Rightarrow> ref \<times> world" where
  "Entity_new w =
     (nobjects w,
      w\<lparr>heap := (heap w)(nobjects w :=
             \<lparr>has_world = False, eid = nextId w, ComponentTypes = [], components = Map.empty,
              tags = [], queries = [], componentsToRemove = []\<rparr>),
        nobjects := nobjects w + 1,
        nextId := nextId w + 1\<rparr>)"

text \<open>
  \<open>Entity.__init\<close>, the method the pool finds on an entity (so \<open>copy\<close> is never tried):
  it leaves \<open>componentsToRemove\<close> as it is.
\<close>

definition Entity_init :: "ref \<Rightarrow> ref \<Rightarrow> world \<Rightarrow> ref \<times> world" where
  "Entity_init item initial w =
     (item,
      w\<lparr>heap := (heap w)(item :=
             (heap w item)\<lparr>eid := nextId w, has_world := False, ComponentTypes := [],
                            queries := [], components := Map.empty, tags := []\<rparr>),
        nextId := nextId w + 1\<rparr>)"

text \<open>\<open>new T()\<close> for a component class, and the two branches of \<open>aquire\<close> on an instance.\<close>

definition new_component :: "(ctor \<Rightarrow> cdef) \<Rightarrow> ctor \<Rightarrow> unit \<Rightarrow> cinstance \<times> unit" where
  "new_component cls T u = (\<lparr>con = T, props = construct (cls T)\<rparr>, u)"

definition component_restore ::
  "(ctor \<Rightarrow> cdef) \<Rightarrow> cinstance \<Rightarrow> cinstance \<Rightarrow> unit \<Rightarrow> cinstance \<times> unit" where
  "component_restore cls item initial u =
     (case init_hook (cls (con item)) of
        Some init \<Rightarrow> (item\<lparr>props := init (props item)\<rparr>, u)
      | None \<Rightarrow>
          (case copy_hook (cls (con item)) of
             Some copy \<Rightarrow> (item\<lparr>props := copy (props item) (props initial)\<rparr>, u)
           | None \<Rightarrow> (item, u)))"

section \<open>ComponentManager\<close>

definition set_pool :: "string \<Rightarrow> cinstance ObjectPool \<Rightarrow> world \<Rightarrow> world" where
  "set_pool name p w =
     w\<lparr>componentPool := map (\<lambda>(n, p'). if n = name then (n, p) else (n, p')) (componentPool w)\<rparr>"

text \<open>The pool is made by \<open>new ObjectPool(Component)\<close> the first time its property name is asked for.\<close>

definition getComponentsPool ::
  "(ctor \<Rightarrow> cdef) \<Rightarrow> ctor \<Rightarrow> world \<Rightarrow> cinstance ObjectPool \<times> world" where
  "getComponentsPool cls C w =
     (let componentName = componentPropertyName C
      in case map_of (componentPool w) componentName of
           Some p \<Rightarrow> (p, w)
         | None \<Rightarrow>
             (let p = fst (ObjectPool_new (new_component cls C) ())
              in (p, w\<lparr>componentPool := componentPool w @ [(componentName, p)]\<rparr>)))"

definition componentAddedToEntity :: "ctor \<Rightarrow> world \<Rightarrow> world" where
  "componentAddedToEntity C w =
     w\<lparr>numComponents := (numComponents w)(getName C \<mapsto>
          (case numComponents w (getName C) of
             None \<Rightarrow> 1
           | Some n \<Rightarrow> if n = 0 then 1 else n + 1))\<rparr>"

text \<open>\<open>numComponents[name]--\<close>; on \<open>undefined\<close> the source stores \<open>NaN\<close>, kept as \<open>None\<close> here.\<close>

definition componentRemovedFromEntity :: "ctor \<Rightarrow> world \<Rightarrow> world" where
  "componentRemovedFromEntity C w =
     w\<lparr>numComponents := (numComponents w)(getName C :=
          map_option (\<lambda>n. n - 1) (numComponents w (getName C)))\<rparr>"

section \<open>EntityManager\<close>

text \<open>\<open>this.eventDispatcher.dispatchEvent(eventName, entity, component)\<close> of the manager.\<close>

definition em_dispatch :: "string \<Rightarrow> ref \<times> comp_arg \<Rightarrow> world \<Rightarrow> world result" where
  "em_dispatch eventName payload w =
     (case dispatchEvent call_listener eventName payload (em_eventDispatcher w, systems w) of
        Inl (err, (d, sy)) \<Rightarrow> Inl (err, w\<lparr>em_eventDispatcher := d, systems := sy\<rparr>)
      | Inr (d, sy) \<Rightarrow> Inr (w\<lparr>em_eventDispatcher := d, systems := sy\<rparr>))"

definition createEntity :: "world \<Rightarrow> (error \<times> world) + (ref \<times> world)" where
  "createEntity w =
     (case aquire Entity_new Entity_init (entityPool w, w) of
        Inl (err, (p, w')) \<Rightarrow> Inl (err, w'\<lparr>entityPool := p\<rparr>)
      | Inr (entity, p, w') \<Rightarrow>
          (let w1 = w'\<lparr>entityPool := p\<rparr>;
               w2 = w1\<lparr>heap := (heap w1)(entity := (heap w1 entity)\<lparr>has_world := True\<rparr>)\<rparr>;
               w3 = w2\<lparr>em_entities := em_entities w2 @ [entity]\<rparr>
           in case em_dispatch ENTITY_CREATED (entity, NoArg) w3 of
                Inl e \<Rightarrow> Inl e
              | Inr w4 \<Rightarrow> Inr (entity, w4)))"

definition entityAddComponent ::
  "(ctor \<Rightarrow> cdef) \<Rightarrow> ref \<Rightarrow> ctor \<Rightarrow> fields option \<Rightarrow> world \<Rightarrow> world result" where
  "entityAddComponent cls entity C vals w =
     (if indexOf (ComponentTypes (heap w entity)) C \<noteq> -1 then Inr w
      else
        (let w1 = w\<lparr>heap := (heap w)(entity :=
                       (heap w entity)\<lparr>ComponentTypes := ComponentTypes (heap w entity) @ [C]\<rparr>)\<rparr>
         in case getComponentsPool cls C w1 of
              (pool, w2) \<Rightarrow>
                (case aquire (new_component cls (con (initialObject pool)))
                        (component_restore cls) (pool, ()) of
                   Inl (err, (p, u)) \<Rightarrow> Inl (err, set_pool (componentPropertyName C) p w2)
                 | Inr (component, p, u) \<Rightarrow>
                     (let w3 = set_pool (componentPropertyName C) p w2;
                          component' =
                            (case vals of
                               None \<Rightarrow> component
                             | Some vs \<Rightarrow>
                                 (case copy_hook (cls (con component)) of
                                    Some copy \<Rightarrow> component\<lparr>props := copy (props component) vs\<rparr>
                                  | None \<Rightarrow> component\<lparr>props := props component ++ vs\<rparr>));
                          w4 = w3\<lparr>heap := (heap w3)(entity :=
                                 (heap w3 entity)\<lparr>components :=
                                    (components (heap w3 entity))(getName C \<mapsto> component')\<rparr>)\<rparr>
                      in and_then (onEntityComponentAdded entity C w4)
                           (\<lambda>w5. em_dispatch COMPONENT_ADDED (entity, CtorArg C)
                                   (componentAddedToEntity C w5))))))"

text \<open>
  \<open>_entityRemoveComponentSync\<close>. \<open>this.componentsManager._componentPool[propName]\<close> is
  \<open>undefined\<close> when no pool was made under that name, and \<open>release\<close> of it throws.
\<close>

definition entityRemoveComponentSync :: "ref \<Rightarrow> ctor \<Rightarrow> int \<Rightarrow> world \<Rightarrow> world result" where
  "entityRemoveComponentSync entity C index w =
     (let propName = componentPropertyName C;
          componentName = getName C;
          component = components (heap w entity) componentName;
          w1 = w\<lparr>heap := (heap w)(entity :=
                  (heap w entity)\<lparr>ComponentTypes := splice1 index (ComponentTypes (heap w entity)),
                                   components := (components (heap w entity))(componentName := None)\<rparr>)\<rparr>
      in case map_of (componentPool w1) propName of
           None \<Rightarrow> Inl (TypeError ''Cannot read properties of undefined (reading release)'', w1)
         | Some pool \<Rightarrow>
             Inr (componentRemovedFromEntity C (set_pool propName (release component pool) w1)))"

definition entityRemoveComponent :: "ref \<Rightarrow> ctor \<Rightarrow> bool \<Rightarrow> world \<Rightarrow> world result" where
  "entityRemoveComponent entity C forceRemove w =
     (let index = indexOf (ComponentTypes (heap w entity)) C
      in if index = -1 then Inr w
         else
           and_then (em_dispatch COMPONENT_REMOVE (entity, CtorArg C) w)
             (\<lambda>w1. and_then (onEntityComponentRemoved entity C w1)
                (\<lambda>w2. if forceRemove
                       then entityRemoveComponentSync entity C index w2
                       else
                         (let w3 = (if length (componentsToRemove (heap w2 entity)) = 0
                                    then w2\<lparr>entitiesWithComponentsToRemove :=
                                             entitiesWithComponentsToRemove w2 @ [entity]\<rparr>
                                    else w2)
                          in Inr (w3\<lparr>heap := (heap w3)(entity :=
                                     (heap w3 entity)\<lparr>componentsToRemove :=
                                        componentsToRemove (heap w3 entity) @ [C]\<rparr>)\<rparr>)))))"

text \<open>
  \<open>entityRemoveAllComponents\<close>: \<open>j\<close> runs from the last index down to 0 over the live
  array \<open>entity._ComponentTypes\<close>; the counter here is \<open>j + 1\<close>. An index past the end
  reads \<open>undefined\<close>, which no entity owns.
\<close>

fun removeAll_loop :: "ref \<Rightarrow> bool \<Rightarrow> nat \<Rightarrow> world \<Rightarrow> world result" where
  "removeAll_loop entity forceRemove 0 w = Inr w"
| "removeAll_loop entity forceRemove (Suc j) w =
     (if j < length (ComponentTypes (heap w entity))
      then and_then (entityRemoveComponent entity (ComponentTypes (heap w entity) ! j) forceRemove w)
             (removeAll_loop entity forceRemove j)
      else removeAll_loop entity forceRemove j w)"

definition entityRemoveAllComponents :: "ref \<Rightarrow> bool \<Rightarrow> world \<Rightarrow> world result" where
  "entityRemoveAllComponents entity forceRemove w =
     removeAll_loop entity forceRemove (length (ComponentTypes (heap w entity))) w"

definition removeEntitySync :: "ref \<Rightarrow> int \<Rightarrow> world \<Rightarrow> world result" where
  "removeEntitySync entity index w =
     and_then (entityRemoveAllComponents entity True (w\<lparr>em_entities := splice1 index (em_entities w)\<rparr>))
       (\<lambda>w1. Inr (w1\<lparr>heap := (heap w1)(entity := (heap w1 entity)\<lparr>tags := [], has_world := False\<rparr>),
                     em_tags := (\<lambda>tag. map_option
                                   (\<lambda>es. let n = indexOf es entity
                                         in if n \<noteq> -1 then splice1 n es else es)
                                   (em_tags w1 tag)),
                     entityPool := release (Some entity) (entityPool w1)\<rparr>))"

definition removeEntity :: "ref \<Rightarrow> bool \<Rightarrow> world \<Rightarrow> world result" where
  "removeEntity entity forceRemove w =
     (let index = indexOf (em_entities w) entity
      in if index = -1 then Inl (Error ''Tried to remove entity not in list'', w)
         else
           and_then (em_dispatch ENTITY_REMOVED (entity, NoArg) w)
             (\<lambda>w1. and_then (onEntityRemoved entity w1)
                (\<lambda>w2. if forceRemove
                       then removeEntitySync entity index w2
                       else Inr (w2\<lparr>entitiesToRemove := entitiesToRemove w2 @ [entity]\<rparr>))))"

text \<open>
  \<open>processDeferredRemoval\<close>. The first loop runs over \<open>entitiesToRemove\<close>. The
  \<open>while\<close> of the second pops \<open>componentsToRemove\<close> until it is empty; nothing it calls
  writes to that array, so the components to pop are the array in reverse.
\<close>

fun removeEntities_loop :: "ref list \<Rightarrow> world \<Rightarrow> world result" where
  "removeEntities_loop [] w = Inr w"
| "removeEntities_loop (entity # es) w =
     and_then (removeEntitySync entity (indexOf (em_entities w) entity) w) (removeEntities_loop es)"

fun pop_components :: "ref \<Rightarrow> ctor list \<Rightarrow> world \<Rightarrow> world result" where
  "pop_components entity [] w = Inr w"
| "pop_components entity (C # Cs) w =
     (let w1 = w\<lparr>heap := (heap w)(entity :=
                  (heap w entity)\<lparr>componentsToRemove := butlast (componentsToRemove (heap w entity))\<rparr>)\<rparr>;
          index = indexOf (ComponentTypes (heap w1 entity)) C
      in and_then (entityRemoveComponentSync entity C index w1) (pop_components entity Cs))"

fun removeComponents_loop :: "ref list \<Rightarrow> world \<Rightarrow> world result" where
  "removeComponents_loop [] w = Inr w"
| "removeComponents_loop (entity # es) w =
     and_then (pop_components entity (rev (componentsToRemove (heap w entity))) w)
       (removeComponents_loop es)"

definition processDeferredRemoval :: "world \<Rightarrow> world result" where
  "processDeferredRemoval w =
     and_then (removeEntities_loop (entitiesToRemove w) w)
       (\<lambda>w1. and_then (removeComponents_loop (entitiesWithComponentsToRemove w1)
                          (w1\<lparr>entitiesToRemove := []\<rparr>))
          (\<lambda>w2. Inr (w2\<lparr>entitiesWithComponentsToRemove := []\<rparr>)))"

definition EntityManager_count :: "world \<Rightarrow> nat" where
  "EntityManager_count w = length (em_entities w)"

definition EntityManager_stats :: "world \<Rightarrow> stats_entities" where
  "EntityManager_stats w =
     \<lparr>numEntities = length (em_entities w),
      numQueries = length (qm_queries w),
      queries_st = QueryManager_stats w,
      numComponentPool = length (componentPool w),
      componentPool_st =
        map (\<lambda>(cname, pool). (cname, \<lparr>used = totalUsed pool, size_p = pool_count pool\<rparr>))
          (componentPool w),
      eventDispatcher_st = (fired (em_eventDispatcher w), handled (em_eventDispatcher w))\<rparr>"

section \<open>Methods of Entity\<close>

text \<open>
  The methods that go through \<open>this._world\<close> throw when it is \<open>null\<close>, as it is for an
  entity that was released to the pool.
\<close>

definition Entity_addComponent ::
  "(ctor \<Rightarrow> cdef) \<Rightarrow> ref \<Rightarrow> ctor \<Rightarrow> fields option \<Rightarrow> world \<Rightarrow> world result" where
  "Entity_addComponent cls entity C vals w =
     (if has_world (heap w entity) then entityAddComponent cls entity C vals w
      else Inl (TypeError ''Cannot read properties of null (reading entityAddComponent)'', w))"

definition Entity_removeComponent :: "ref \<Rightarrow> ctor \<Rightarrow> bool \<Rightarrow> world \<Rightarrow> world result" where
  "Entity_removeComponent entity C forceRemove w =
     (if has_world (heap w entity) then entityRemoveComponent entity C forceRemove w
      else Inl (TypeError ''Cannot read properties of null (reading entityRemoveComponent)'', w))"

definition Entity_removeAllComponents :: "ref \<Rightarrow> bool \<Rightarrow> world \<Rightarrow> world result" where
  "Entity_removeAllComponents entity forceRemove w =
     (if has_world (heap w entity) then entityRemoveAllComponents entity forceRemove w
      else Inl (TypeError ''Cannot read properties of null (reading entityRemoveAllComponents)'', w))"

definition Entity_remove :: "ref \<Rightarrow> bool \<Rightarrow> world \<Rightarrow> world result" where
  "Entity_remove entity forceRemove w =
     (if has_world (heap w entity) then removeEntity entity forceRemove w
      else Inl (TypeError ''Cannot read properties of null (reading removeEntity)'', w))"

definition hasComponent :: "ref \<Rightarrow> ctor \<Rightarrow> world \<Rightarrow> bool" where
  "hasComponent entity C w = (indexOf (ComponentTypes (heap w entity)) C \<noteq> -1)"

definition getComponent :: "ref \<Rightarrow> ctor \<Rightarrow> world \<Rightarrow> cinstance option" where
  "getComponent entity C w = components (heap w entity) (getName C)"

text \<open>
  \<open>getMutableComponent\<close>: one dispatch for each entry of \<open>this.queries\<close> whose query is
  reactive. \<open>with_query\<close> finds the query object of a key in the manager.
\<close>

fun with_query ::
  "string \<Rightarrow> (Query \<times> world \<Rightarrow> (Query \<times> world) result) \<Rightarrow> Query list \<Rightarrow> world \<Rightarrow>
   (Query list \<times> world) result" where
  "with_query k f [] w = Inr ([], w)"
| "with_query k f (q # qs) w =
     (if key q = k
      then (case f (q, w) of
              Inl (err, (q', w')) \<Rightarrow> Inl (err, (q' # qs, w'))
            | Inr (q', w') \<Rightarrow> Inr (q' # qs, w'))
      else (case with_query k f qs w of
              Inl (err, (qs', w')) \<Rightarrow> Inl (err, (q # qs', w'))
            | Inr (qs', w') \<Rightarrow> Inr (q # qs', w')))"

definition notify_changed :: "ref \<Rightarrow> cinstance option \<Rightarrow> Query \<times> world \<Rightarrow> (Query \<times> world) result" where
  "notify_changed entity component qw =
     (if reactive (fst qw)
      then Query_dispatch COMPONENT_CHANGED
             (entity, case component of None \<Rightarrow> NoArg | Some c \<Rightarrow> InstArg c) qw
      else Inr qw)"

fun getMutable_loop :: "ref \<Rightarrow> cinstance option \<Rightarrow> string list \<Rightarrow> world \<Rightarrow> world result" where
  "getMutable_loop entity component [] w = Inr w"
| "getMutable_loop entity component (k # ks) w =
     (case with_query k (notify_changed entity component) (qm_queries w) w of
        Inl (err, (qs, w')) \<Rightarrow> Inl (err, w'\<lparr>qm_queries := qs\<rparr>)
      | Inr (qs, w') \<Rightarrow> getMutable_loop entity component ks (w'\<lparr>qm_queries := qs\<rparr>))"

definition getMutableComponent ::
  "ref \<Rightarrow> ctor \<Rightarrow> world \<Rightarrow> (error \<times> world) + (cinstance option \<times> world)" where
  "getMutableComponent entity C w =
     (let component = components (heap w entity) (getName C)
      in case getMutable_loop entity component (queries (heap w entity)) w of
           Inl e \<Rightarrow> Inl e
         | Inr w' \<Rightarrow> Inr (component, w'))"

section \<open>System\<close>

definition eventMapping :: "string \<Rightarrow> string option" where
  "eventMapping ev =
     (if ev = ''EntityAdded'' then Some ENTITY_ADDED
      else if ev = ''EntityRemoved'' then Some ENTITY_REMOVED_q
      else if ev = ''EntityChanged'' then Some COMPONENT_CHANGED
      else None)"

text \<open>The body of \<open>for (let eventName in queryConfig.events)\<close> on the query, after \<open>events[eventName] = []\<close>.\<close>

definition subscribe_event :: "nat \<Rightarrow> string \<Rightarrow> string \<Rightarrow> evconfig \<Rightarrow> Query \<Rightarrow> Query" where
  "subscribe_event i name eventName ev q =
     (case eventMapping (event ev) of
        Some topic \<Rightarrow>
          (let q1 = q\<lparr>eventDispatcher :=
                       addEventListener topic (PushUnique i name eventName) (eventDispatcher q)\<rparr>
           in if event ev = ''EntityChanged'' then q1\<lparr>reactive := True\<rparr> else q1)
      | None \<Rightarrow>
          (if event ev = ''ComponentChanged''
           then q\<lparr>reactive := True,
                  eventDispatcher :=
                    addEventListener COMPONENT_CHANGED
                      (PushFiltered i name eventName (ev_components ev)) (eventDispatcher q)\<rparr>
           else q))"

fun subscribe_events :: "nat \<Rightarrow> string \<Rightarrow> (string \<times> evconfig) list \<Rightarrow> Query \<Rightarrow> Query" where
  "subscribe_events i name [] q = q"
| "subscribe_events i name ((eventName, ev) # rest) q =
     subscribe_events i name rest (subscribe_event i name eventName ev q)"

text \<open>
  The body of \<open>for (var name in this.config.queries)\<close>: the system under construction
  travels beside the world.
\<close>

definition System_query ::
  "string \<times> qconfig \<Rightarrow> System \<times> world \<Rightarrow> (System \<times> world) result" where
  "System_query nq sw =
     (case nq of (name, queryConfig) \<Rightarrow>
      case sw of (s, w) \<Rightarrow>
        (case q_components queryConfig of
           None \<Rightarrow> Inl (Error ''components attribute can not be empty in a query'', (s, w))
         | Some Cs \<Rightarrow>
             (if length Cs = 0
              then Inl (Error ''components attribute can not be empty in a query'', (s, w))
              else
                (case getQuery Cs w of
                   Inl (err, w') \<Rightarrow> Inl (err, (s, w'))
                 | Inr (k, w') \<Rightarrow>
                     (let s1 = s\<lparr>queries_s := queries_s s @ [(name, k)]\<rparr>
                      in case q_events queryConfig of
                           None \<Rightarrow> Inr (s1, w')
                         | Some evs \<Rightarrow>
                             Inr (s1\<lparr>events := events s1 @ [(name, map (\<lambda>(eventName, ev). (eventName, [])) evs)]\<rparr>,
                                  w'\<lparr>qm_queries :=
                                       map (\<lambda>q. if key q = k then subscribe_events (sid s) name evs q else q)
                                         (qm_queries w')\<rparr>))))))"

fun System_queries ::
  "(string \<times> qconfig) list \<Rightarrow> System \<times> world \<Rightarrow> (System \<times> world) result" where
  "System_queries [] sw = Inr sw"
| "System_queries (nq # rest) sw = and_then (System_query nq sw) (System_queries rest)"

text \<open>
  \<open>new System(world, attributes)\<close>. \<open>attributes\<close> is reduced to its \<open>priority\<close>, and a
  missing or zero priority leaves 0. \<open>order\<close> is set by \<open>registerSystem\<close>.
\<close>

definition System_new :: "sysclass \<Rightarrow> int option \<Rightarrow> world \<Rightarrow> (System \<times> world) result" where
  "System_new cl attributes w =
     (let s = \<lparr>sid = nsystems w, sname = cl_name cl, enabled = True, initialized = True,
               priority = (case attributes of None \<Rightarrow> 0 | Some p \<Rightarrow> if p \<noteq> 0 then p else 0),
               order = 0, executeTime = 0, queries_s = [], events = [],
               config = cl_init cl, has_execute = cl_execute cl\<rparr>;
          w1 = w\<lparr>nsystems := nsystems w + 1\<rparr>
      in case cl_init cl of
           None \<Rightarrow> Inr (s, w1)
         | Some cfg \<Rightarrow>
             (case c_queries cfg of
                None \<Rightarrow> Inr (s, w1)
              | Some qs \<Rightarrow> System_queries qs (s, w1)))"

definition upd_system :: "nat \<Rightarrow> (System \<Rightarrow> System) \<Rightarrow> world \<Rightarrow> world" where
  "upd_system i f w = w\<lparr>systems := map (\<lambda>s. if sid s = i then f s else s) (systems w)\<rparr>"

text \<open>\<open>clearEvents\<close>: every buffer gets length 0.\<close>

definition clearEvents :: "System \<Rightarrow> System" where
  "clearEvents s =
     s\<lparr>events := map (\<lambda>(name, evs). (name, map (\<lambda>(eventName, buf). (eventName, [])) evs)) (events s)\<rparr>"


definition System_play :: "nat \<Rightarrow> world \<Rightarrow> world" where
  "System_play i w = upd_system i (\<lambda>s. s\<lparr>enabled := True\<rparr>) w"

section \<open>SystemManager\<close>

text \<open>
  \<open>this.systems.sort((a, b) => a.priority - b.priority || a.order - b.order)\<close>. The
  comparator is the one of the source; the sorting itself is an insertion that puts an
  element after the ones it does not precede.
\<close>

definition compare_systems :: "System \<Rightarrow> System \<Rightarrow> int" where
  "compare_systems a b =
     (if priority a - priority b \<noteq> 0 then priority a - priority b
      else int (order a) - int (order b))"

fun insert_by :: "('a \<Rightarrow> 'a \<Rightarrow> int) \<Rightarrow> 'a \<Rightarrow> 'a list \<Rightarrow> 'a list" where
  "insert_by cmp x [] = [x]"
| "insert_by cmp x (y # ys) = (if cmp x y < 0 then x # y # ys else y # insert_by cmp x ys)"

definition sort_by :: "('a \<Rightarrow> 'a \<Rightarrow> int) \<Rightarrow> 'a list \<Rightarrow> 'a list" where
  "sort_by cmp xs = foldl (\<lambda>acc x. insert_by cmp x acc) [] xs"

definition sortSystems :: "world \<Rightarrow> world" where
  "sortSystems w = w\<lparr>systems := sort_by compare_systems (systems w)\<rparr>"

definition registerSystem :: "sysclass \<Rightarrow> int option \<Rightarrow> world \<Rightarrow> world result" where
  "registerSystem cl attributes w =
     (case System_new cl attributes w of
        Inl (err, (s, w')) \<Rightarrow> Inl (err, w')
      | Inr (s, w') \<Rightarrow>
          Inr (sortSystems (w'\<lparr>systems := systems w' @ [s\<lparr>order := length (systems w')\<rparr>]\<rparr>)))"

text \<open>
  \<open>execute(delta, time)\<close>: \<open>body\<close> is what \<open>system.execute(delta, time)\<close> does, to
  the world and to the state \<open>'u\<close> of the program around it; \<open>elapsed\<close> is the time
  measured around the call. \<open>forEach\<close> visits the indices below the length that the
  array had when the loop began, \<open>k\<close> of them being left from \<open>i\<close> on; it reads the
  element at an index when it reaches it, and skips an index that the array no longer
  has. \<open>system.executeTime = ...\<close> and \<open>system.clearEvents()\<close> act on the object read.
\<close>

fun execute_loop ::
  "(System \<Rightarrow> 'u \<times> world \<Rightarrow> ('u \<times> world) result) \<Rightarrow> (System \<Rightarrow> int) \<Rightarrow> nat \<Rightarrow> nat \<Rightarrow>
   'u \<times> world \<Rightarrow> ('u \<times> world) result" where
  "execute_loop body elapsed i 0 uw = Inr uw"
| "execute_loop body elapsed i (Suc k) uw =
     (if i < length (systems (snd uw))
      then (let system = systems (snd uw) ! i
            in if enabled system \<and> initialized system
               then and_then
                      (if has_execute system
                       then and_then (body system uw)
                              (\<lambda>uw1. Inr (fst uw1,
                                          upd_system (sid system) (\<lambda>s. s\<lparr>executeTime := elapsed system\<rparr>)
                                            (snd uw1)))
                       else Inr uw)
                      (\<lambda>uw2. execute_loop body elapsed (i + 1) k
                               (fst uw2, upd_system (sid system) clearEvents (snd uw2)))
               else execute_loop body elapsed (i + 1) k uw)
      else execute_loop body elapsed (i + 1) k uw)"

definition SystemManager_execute ::
  "(System \<Rightarrow> 'u \<times> world \<Rightarrow> ('u \<times> world) result) \<Rightarrow> (System \<Rightarrow> int) \<Rightarrow>
   'u \<times> world \<Rightarrow> ('u \<times> world) result" where
  "SystemManager_execute body elapsed uw =
     execute_loop body elapsed 0 (length (systems (snd uw))) uw"

text \<open>
  \<open>stats()\<close> of the manager: \<open>system.ctx\<close> is set nowhere, so the loop over it adds
  nothing and \<open>queries\<close> stays empty. \<open>set_key\<close> is the assignment \<open>obj[k] = v\<close>.
\<close>

fun set_key :: "'k \<Rightarrow> 'v \<Rightarrow> ('k \<times> 'v) list \<Rightarrow> ('k \<times> 'v) list" where
  "set_key k v [] = [(k, v)]"
| "set_key k v ((k', v') # kvs) = (if k' = k then (k, v) # kvs else (k', v') # set_key k v kvs)"

definition SystemManager_stats :: "world \<Rightarrow> stats_system" where
  "SystemManager_stats w =
     \<lparr>numSystems = length (systems w),
      systems_st = foldl (\<lambda>acc system. set_key (sname system) [] acc) [] (systems w)\<rparr>"

section \<open>World\<close>

text \<open>
  \<open>new World()\<close>, in a process where no entity was made before: the pool of entities
  constructs its \<open>initialObject\<close>, the first \<open>Entity\<close>.
\<close>

definition blank_entity :: Entity where
  "blank_entity =
     \<lparr>has_world = False, eid = 0, ComponentTypes = [], components = Map.empty,
      tags = [], queries = [], componentsToRemove = []\<rparr>"

definition World_new :: world where
  "World_new =
     (let w0 = \<lparr>heap = (\<lambda>r. blank_entity), nobjects = 0, nextId = 0, em_entities = [],
                em_tags = Map.empty, em_eventDispatcher = EventDispatcher_new,
                entityPool = \<lparr>freeList = [], pool_count = 0, initialObject = 0\<rparr>,
                entitiesWithComponentsToRemove = [], entitiesToRemove = [], qm_queries = [],
                componentPool = [], numComponents = Map.empty, systems = [], nsystems = 0,
                enabled_w = True, console = []\<rparr>
      in case ObjectPool_new Entity_new w0 of (p, w1) \<Rightarrow> w1\<lparr>entityPool := p\<rparr>)"

definition World_execute ::
  "(System \<Rightarrow> 'u \<times> world \<Rightarrow> ('u \<times> world) result) \<Rightarrow> (System \<Rightarrow> int) \<Rightarrow>
   'u \<times> world \<Rightarrow> ('u \<times> world) result" where
  "World_execute body elapsed uw =
     (if enabled_w (snd uw)
      then and_then (SystemManager_execute body elapsed uw)
             (\<lambda>uw1. case processDeferredRemoval (snd uw1) of
                      Inl (err, w2) \<Rightarrow> Inl (err, (fst uw1, w2))
                    | Inr w2 \<Rightarrow> Inr (fst uw1, w2))
      else Inr uw)"

text \<open>
  \<open>stats()\<close> builds the object, prints it with \<open>console.log\<close> and has no \<open>return\<close>:
  the value of the call is \<open>undefined\<close> (\<open>None\<close>).
\<close>

definition World_stats :: "world \<Rightarrow> stats_world option \<times> world" where
  "World_stats w =
     (let stats = \<lparr>entities_st = EntityManager_stats w, system_st = SystemManager_stats w\<rparr>
      in (None, w\<lparr>console := console w @ [stats]\<rparr>))"

section \<open>Scripts\<close>

text \<open>
  A caller of the library, as a list of calls on the public interface. An entity is
  named by its reference; a reference to an object that does not exist yet is a
  variable still \<open>undefined\<close>, and a call on it throws. A call that throws ends the
  script.
\<close>

datatype call =
    CreateEntity
  | AddComponent ref ctor "fields option"
  | RemoveComponent ref ctor bool
  | RemoveAllComponents ref bool
  | RemoveEntity ref bool
  | GetMutableComponent ref ctor
  | ProcessDeferred
  | QueryComponents "qentry list"
  | RegisterSystem sysclass "int option"

definition on_object :: "ref \<Rightarrow> world \<Rightarrow> world result \<Rightarrow> world result" where
  "on_object entity w r =
     (if entity < nobjects w then r
      else Inl (TypeError ''Cannot read properties of undefined'', w))"

fun step :: "(ctor \<Rightarrow> cdef) \<Rightarrow> call \<Rightarrow> world \<Rightarrow> world result" where
  "step cls CreateEntity w =
     (case createEntity w of Inl e \<Rightarrow> Inl e | Inr (entity, w') \<Rightarrow> Inr w')"
| "step cls (AddComponent entity C vals) w =
     on_object entity w (Entity_addComponent cls entity C vals w)"
| "step cls (RemoveComponent entity C forceRemove) w =
     on_object entity w (Entity_removeComponent entity C forceRemove w)"
| "step cls (RemoveAllComponents entity forceRemove) w =
     on_object entity w (Entity_removeAllComponents entity forceRemove w)"
| "step cls (RemoveEntity entity forceRemove) w =
     on_object entity w (Entity_remove entity forceRemove w)"
| "step cls (GetMutableComponent entity C) w =
     on_object entity w
       (case getMutableComponent entity C w of Inl e \<Rightarrow> Inl e | Inr (component, w') \<Rightarrow> Inr w')"
| "step cls ProcessDeferred w = processDeferredRemoval w"
| "step cls (QueryComponents Cs) w =
     (case getQuery Cs w of Inl e \<Rightarrow> Inl e | Inr (k, w') \<Rightarrow> Inr w')"
| "step cls (RegisterSystem cl attributes) w = registerSystem cl attributes w"

fun run :: "(ctor \<Rightarrow> cdef) \<Rightarrow> call list \<Rightarrow> world \<Rightarrow> world result" where
  "run cls [] w = Inr w"
| "run cls (c # cs) w = and_then (step cls c w) (run cls cs)"

section \<open>Observing a run\<close>

text \<open>
  Whether a call threw, the state it left, and what a caller can see of the state: the
  entity list of the query under a key, the component types of an entity, and the
  whole picture \<open>observe\<close>: for each query its key and entities; for each \<open>Entity\<close>
  object its reference, component types, queries, whether it has a world, and its
  pending removals.
\<close>

definition thrown :: "'s result \<Rightarrow> bool" where
  "thrown r = (case r of Inl e \<Rightarrow> True | Inr s \<Rightarrow> False)"

definition state_of :: "'s result \<Rightarrow> 's" where
  "state_of r = (case r of Inl (e, s) \<Rightarrow> s | Inr s \<Rightarrow> s)"

definition members :: "string \<Rightarrow> world \<Rightarrow> ref list" where
  "members k w = (case find (\<lambda>q. key q = k) (qm_queries w) of None \<Rightarrow> [] | Some q \<Rightarrow> entities q)"

definition types_of :: "ref \<Rightarrow> world \<Rightarrow> ctor list" where
  "types_of entity w = ComponentTypes (heap w entity)"

definition observe ::
  "world result \<Rightarrow>
   bool \<times> ref list \<times> (string \<times> ref list) list \<times>
   (ref \<times> ctor list \<times> string list \<times> bool \<times> ctor list) list \<times> ref list \<times> ref option list" where
  "observe r =
     (thrown r,
      em_entities (state_of r),
      map (\<lambda>q. (key q, entities q)) (qm_queries (state_of r)),
      map (\<lambda>e. (e, ComponentTypes (heap (state_of r) e), queries (heap (state_of r) e),
                has_world (heap (state_of r) e), componentsToRemove (heap (state_of r) e)))
        [0..<nobjects (state_of r)],
      entitiesToRemove (state_of r),
      freeList (entityPool (state_of r)))"

text \<open>The value of a property of the component an entity holds under a name.\<close>

definition prop_of :: "ref \<Rightarrow> ctor \<Rightarrow> string \<Rightarrow> world \<Rightarrow> int option" where
  "prop_of entity C x w =
     (case getComponent entity C w of None \<Rightarrow> None | Some component \<Rightarrow> props component x)"

text \<open>Component classes for the examples: plain classes, and classes with a method.\<close>

definition A :: ctor where "A = Ctor 0 ''A''"
definition B :: ctor where "B = Ctor 1 ''B''"
definition Pos :: ctor where "Pos = Ctor 2 ''Pos''"

definition origin :: fields where
  "origin = [''x'' \<mapsto> 0, ''y'' \<mapsto> 0]"

definition plain_classes :: "ctor \<Rightarrow> cdef" where
  "plain_classes T = \<lparr>construct = origin, init_hook = None, copy_hook = None\<rparr>"

definition reset_classes :: "ctor \<Rightarrow> cdef" where
  "reset_classes T = \<lparr>construct = origin, init_hook = Some (\<lambda>f. origin), copy_hook = None\<rparr>"

definition copy_classes :: "ctor \<Rightarrow> cdef" where
  "copy_classes T = \<lparr>construct = origin, init_hook = None, copy_hook = Some (\<lambda>f src. f ++ src)\<rparr>"

section \<open>Examples of dispatchers and pools\<close>


text \<open>
  What \<open>aquire\<close> does to an instance, by the methods of its class: \<open>__init()\<close> if
  there is one, else \<open>copy(initialObject)\<close> if there is one, else nothing.
\<close>

definition restored :: "(ctor \<Rightarrow> cdef) \<Rightarrow> cinstance \<Rightarrow> cinstance \<Rightarrow> cinstance" where
  "restored cls item initial =
     (case init_hook (cls (con item)) of
        Some init \<Rightarrow> item\<lparr>props := init (props item)\<rparr>
      | None \<Rightarrow>
          (case copy_hook (cls (con item)) of
             Some copy \<Rightarrow> item\<lparr>props := copy (props item) (props initial)\<rparr>
           | None \<Rightarrow> item))"

text \<open>A pool whose one free instance was released with the values of its last owner.\<close>

definition used_pool :: "cinstance ObjectPool" where
  "used_pool =
     \<lparr>freeList = [Some \<lparr>con = Pos, props = [''x'' \<mapsto> 3, ''y'' \<mapsto> 4]\<rparr>], pool_count = 1,
      initialObject = \<lparr>con = Pos, props = origin\<rparr>\<rparr>"

text \<open>
  A system class with one query, and the world after registering it, creating an entity
  that owns \<open>A\<close>, and one \<open>execute\<close> in which the system ran for the time 5.
\<close>

definition mover :: sysclass where
  "mover =
     \<lparr>cl_name = ''Mover'',
      cl_init = Some \<lparr>c_queries = Some [(''moving'', \<lparr>q_components = Some [Plain A], q_events = None\<rparr>)]\<rparr>,
      cl_execute = True\<rparr>"

definition ticked :: world where
  "ticked =
     snd (state_of (World_execute (\<lambda>system uw. Inr uw) (\<lambda>system. 5)
       ((), state_of (run plain_classes
              [RegisterSystem mover None, CreateEntity, AddComponent 1 A None] World_new))))"

text \<open>A world in which entity 1 owns \<open>A\<close> and a query over \<open>A\<close> holds it.\<close>

definition owning :: world where
  "owning = state_of (run plain_classes [QueryComponents [Plain A], CreateEntity, AddComponent 1 A None] World_new)"







section \<open>Abstractions for the proofs about the index of queries\<close>

text \<open>
  The part of a world that the bookkeeping of the entity manager reads and writes, the
  queries, the systems and the references from entities to queries left aside: for
  each \<open>Entity\<close> object its component types, whether it has a world and its pending
  removals; the entity list; the free list of the pool of entities; the number of
  objects; the two queues of deferred removals; the names of the pools of components;
  the listeners and the counter \<open>fired\<close> of the dispatcher of the entity manager.
\<close>

record aworld =
  a_types :: "ref \<Rightarrow> ctor list"
  a_alive :: "ref \<Rightarrow> bool"
  a_pending :: "ref \<Rightarrow> ctor list"
  a_store :: "ref list"
  a_free :: "ref option list"
  a_nobjects :: nat
  a_toRemove :: "ref list"
  a_withComps :: "ref list"
  a_pools :: "string set"
  a_listeners :: "string \<rightharpoonup> listener list"
  a_fired :: nat

definition core :: "world \<Rightarrow> aworld" where
  "core w =
     \<lparr>a_types = (\<lambda>r. ComponentTypes (heap w r)),
      a_alive = (\<lambda>r. has_world (heap w r)),
      a_pending = (\<lambda>r. componentsToRemove (heap w r)),
      a_store = em_entities w,
      a_free = freeList (entityPool w),
      a_nobjects = nobjects w,
      a_toRemove = entitiesToRemove w,
      a_withComps = entitiesWithComponentsToRemove w,
      a_pools = set (map fst (componentPool w)),
      a_listeners = listeners (em_eventDispatcher w),
      a_fired = fired (em_eventDispatcher w)\<rparr>"

text \<open>What adding and removing entities leaves alone in a query.\<close>

definition qstatic :: "Query \<Rightarrow> string \<times> ctor list \<times> ctor list \<times> bool \<times> (string \<rightharpoonup> listener list)" where
  "qstatic q = (key q, Components q, NotComponents q, reactive q, listeners (eventDispatcher q))"

text \<open>A dispatcher after one \<open>stats.fired++\<close>.\<close>

definition bump :: "'h EventDispatcher \<Rightarrow> 'h EventDispatcher" where
  "bump d = d\<lparr>fired := fired d + 1\<rparr>"

text \<open>
  \<open>match\<close> on the component types \<open>tys\<close> of an entity, and the entity list of a query
  after \<open>onEntityComponentAdded\<close> or \<open>onEntityComponentRemoved\<close> has visited it for the
  entity \<open>e\<close> and the type \<open>C\<close>, read off the two loops.
\<close>

definition matches :: "Query \<Rightarrow> ctor list \<Rightarrow> bool" where
  "matches q tys = (set (Components q) \<subseteq> set tys \<and> set (NotComponents q) \<inter> set tys = {})"

definition added_entities :: "ref \<Rightarrow> ctor \<Rightarrow> ctor list \<Rightarrow> Query \<Rightarrow> ref list" where
  "added_entities e C tys q =
     (if C \<in> set (NotComponents q) \<and> e \<in> set (entities q) then remove1 e (entities q)
      else if C \<notin> set (Components q) \<or> \<not> matches q tys \<or> e \<in> set (entities q) then entities q
      else entities q @ [e])"

definition removed_entities :: "ref \<Rightarrow> ctor \<Rightarrow> ctor list \<Rightarrow> Query \<Rightarrow> ref list" where
  "removed_entities e C tys q =
     (if C \<in> set (NotComponents q) \<and> e \<notin> set (entities q) then entities q @ [e]
      else if C \<notin> set (Components q) then entities q
      else if \<not> matches q tys then entities q
      else remove1 e (entities q))"

text \<open>
  Two worlds that differ at most in the buffers of the systems, in the queries, and in
  the references from entities to queries.
\<close>

definition qframe :: "world \<Rightarrow> world \<Rightarrow> bool" where
  "qframe w w' =
     (\<exists>hp sy ql. w' = w\<lparr>heap := hp, systems := sy, qm_queries := ql\<rparr> \<and>
               (\<forall>r. \<exists>qs. hp r = (heap w r)\<lparr>queries := qs\<rparr>))"

text \<open>A query before and after one of the three loops of the query manager has visited it.\<close>

definition R_add :: "ref \<Rightarrow> ctor \<Rightarrow> ctor list \<Rightarrow> Query \<Rightarrow> Query \<Rightarrow> bool" where
  "R_add e C tys q q' = (qstatic q' = qstatic q \<and> entities q' = added_entities e C tys q)"

definition R_rem :: "ref \<Rightarrow> ctor \<Rightarrow> ctor list \<Rightarrow> Query \<Rightarrow> Query \<Rightarrow> bool" where
  "R_rem e C tys q q' = (qstatic q' = qstatic q \<and> entities q' = removed_entities e C tys q)"

definition R_gone :: "ref \<Rightarrow> Query \<Rightarrow> Query \<Rightarrow> bool" where
  "R_gone e q q' =
     (qstatic q' = qstatic q \<and> (entities q' = entities q \<or> entities q' = remove1 e (entities q)))"

text \<open>
  The listener that \<open>new System\<close> subscribes for \<open>EntityAdded\<close>, \<open>EntityRemoved\<close> and
  \<open>EntityChanged\<close> reads nothing of the component it is given and cannot throw. A
  world is \<open>calm\<close> when the topics that the entity manager and the queries dispatch on
  adding and removing hold such listeners only, as they do in every world that
  \<open>new System\<close> has built: the other listener is subscribed to \<open>COMPONENT_CHANGED\<close>.
\<close>

fun is_unique :: "listener \<Rightarrow> bool" where
  "is_unique (PushUnique i name eventName) = True"
| "is_unique (PushFiltered i name eventName comps) = False"

definition quiet_topic :: "listener EventDispatcher \<Rightarrow> string \<Rightarrow> bool" where
  "quiet_topic d ev = (case listeners d ev of None \<Rightarrow> True | Some ls \<Rightarrow> list_all is_unique ls)"

definition calm_query :: "Query \<Rightarrow> bool" where
  "calm_query q =
     (quiet_topic (eventDispatcher q) ENTITY_ADDED \<and> quiet_topic (eventDispatcher q) ENTITY_REMOVED_q)"

definition calm :: "world \<Rightarrow> bool" where
  "calm w =
     (quiet_topic (em_eventDispatcher w) ENTITY_CREATED \<and>
      quiet_topic (em_eventDispatcher w) ENTITY_REMOVED \<and>
      quiet_topic (em_eventDispatcher w) COMPONENT_ADDED \<and>
      quiet_topic (em_eventDispatcher w) COMPONENT_REMOVE \<and>
      list_all calm_query (qm_queries w))"


definition query_ok :: "(ref \<Rightarrow> ctor list) \<Rightarrow> ref list \<Rightarrow> Query \<Rightarrow> bool" where
  "query_ok tys store q =
     (NotComponents q = [] \<longrightarrow>
        Components q \<noteq> [] \<and> distinct (entities q) \<and>
        (\<forall>e \<in> set (entities q). set (Components q) \<subseteq> set (tys e)) \<and>
        (\<forall>e \<in> set store. set (Components q) \<subseteq> set (tys e) \<longrightarrow> e \<in> set (entities q)))"




section \<open>Abstractions for the proofs about the order of systems\<close>











section \<open>Evaluating the model on concrete inputs\<close>

text \<open>The definitions of the model, for the simplifier to run it on a concrete script.\<close>

lemmas model_defs = and_then_def indexOf_def splice1_def pop_def getName_def Not_c_def componentPropertyName_def
  EventDispatcher_new_def addEventListener_def dispatchEvent_def ObjectPool_new_def expand_def round_fifth_def
  aquire_def release_def upd_buffer_def ENTITY_ADDED_def ENTITY_REMOVED_q_def COMPONENT_CHANGED_def
  ENTITY_CREATED_def ENTITY_REMOVED_def COMPONENT_ADDED_def COMPONENT_REMOVE_def Query_dispatch_def
  Query_addEntity_def Query_removeEntity_def match_def Query_new_def for_queries_def onEntityRemoved_step_def
  onEntityRemoved_def onEntityComponentAdded_step_def onEntityComponentAdded_def onEntityComponentRemoved_step_def
  onEntityComponentRemoved_def getQuery_def Entity_new_def Entity_init_def new_component_def component_restore_def
  set_pool_def getComponentsPool_def componentAddedToEntity_def componentRemovedFromEntity_def em_dispatch_def
  createEntity_def entityAddComponent_def entityRemoveComponentSync_def entityRemoveComponent_def
  entityRemoveAllComponents_def removeEntitySync_def removeEntity_def processDeferredRemoval_def
  Entity_addComponent_def Entity_removeComponent_def Entity_removeAllComponents_def Entity_remove_def
  hasComponent_def getComponent_def notify_changed_def getMutableComponent_def eventMapping_def subscribe_event_def
  System_query_def System_new_def upd_system_def clearEvents_def compare_systems_def sort_by_def sortSystems_def
  registerSystem_def SystemManager_execute_def blank_entity_def World_new_def on_object_def
  thrown_def state_of_def members_def types_of_def observe_def prop_of_def A_def B_def Pos_def origin_def
  plain_classes_def reset_classes_def copy_classes_def Let_def

text \<open>The first letters of the class names of the examples, lowercased, and the keys of their queries.\<close>

lemma lower_char_examples:
  "lower_char CHR ''A'' = CHR ''a''" "lower_char CHR ''B'' = CHR ''b''" "lower_char CHR ''P'' = CHR ''p''"
  by code_simp+

lemma key_A: "queryKey [Plain (Ctor 0 ''A'')] = ''a''"
  by code_simp

lemma key_A_not_B: "queryKey [Plain (Ctor 0 ''A''), Obj ''not'' (Ctor (Suc 0) ''B'')] = ''!b-a''"
  by code_simp

lemma key_B: "queryKey [Plain (Ctor (Suc 0) ''B'')] = ''b''"
  by code_simp

lemmas key_evals = key_A key_A_not_B key_B lower_char_examples


section \<open>Facts about the array operations\<close>

lemma indexOf_from_absent: "0 \<le> i \<Longrightarrow> (indexOf_from xs x i = -1) = (x \<notin> set xs)"
proof (induction xs arbitrary: i)
  case Nil
  then show ?case by simp
next
  case (Cons y ys)
  have "0 \<le> i + 1" using Cons.prems by simp
  from Cons.IH [OF this] Cons.prems show ?case by auto
qed

lemma indexOf_absent: "(indexOf xs x = -1) = (x \<notin> set xs)"
  by (simp add: indexOf_def indexOf_from_absent)

lemma indexOf_from_position:
  "x \<in> set xs \<Longrightarrow>
   \<exists>n < length xs. indexOf_from xs x i = i + int n \<and> xs ! n = x \<and> x \<notin> set (take n xs)"
proof (induction xs arbitrary: i)
  case Nil
  then show ?case by simp
next
  case (Cons y ys)
  show ?case
  proof (cases "y = x")
    case True
    then show ?thesis by (intro exI [of _ 0]) simp
  next
    case False
    with Cons.prems have "x \<in> set ys" by simp
    from Cons.IH [OF this, of "i + 1"] obtain n where
      n: "n < length ys" "indexOf_from ys x (i + 1) = i + 1 + int n" "ys ! n = x"
         "x \<notin> set (take n ys)" by blast
    show ?thesis
      using False n by (intro exI [of _ "Suc n"]) simp
  qed
qed

lemma remove1_at:
  "n < length xs \<Longrightarrow> xs ! n = x \<Longrightarrow> x \<notin> set (take n xs) \<Longrightarrow>
   take n xs @ drop (Suc n) xs = remove1 x xs"
proof (induction xs arbitrary: n)
  case Nil
  then show ?case by simp
next
  case (Cons y ys)
  then show ?case by (cases n) auto
qed

lemma splice1_indexOf: "x \<in> set xs \<Longrightarrow> splice1 (indexOf xs x) xs = remove1 x xs"
proof -
  assume xin: "x \<in> set xs"
  from indexOf_from_position [OF xin, of 0] obtain n where
    n: "n < length xs" "indexOf_from xs x 0 = int n" "xs ! n = x" "x \<notin> set (take n xs)"
    by auto
  have "splice1 (int n) xs = take n xs @ drop (Suc n) xs"
    using n(1) by (simp add: splice1_def Let_def min_def)
  then show ?thesis
    using n remove1_at [of n xs x] by (simp add: indexOf_def)
qed

lemma splice1_minus_one: "splice1 (-1) xs = butlast xs"
  by (cases xs rule: rev_cases) (auto simp: splice1_def Let_def max_def butlast_append)

lemma indexOf_distinct_nth:
  "distinct xs \<Longrightarrow> n < length xs \<Longrightarrow> indexOf xs (xs ! n) = int n"
proof -
  assume d: "distinct xs" and l: "n < length xs"
  then have "xs ! n \<in> set xs" by simp
  from indexOf_from_position [OF this, of 0] obtain m where
    m: "m < length xs" "indexOf_from xs (xs ! n) 0 = int m" "xs ! m = xs ! n" by auto
  with d l have "m = n" by (simp add: nth_eq_iff_index_eq)
  with m show ?thesis by (simp add: indexOf_def)
qed

section \<open>The key of a query\<close>

lemma queryKey_names_tokens: "queryKey_names L names = names @ map token L"
  by (induction L names rule: queryKey_names.induct) simp_all

lemma queryKey_eq_spec: "queryKey L = queryKey_spec L"
  by (simp add: queryKey_def queryKey_spec_def queryKey_names_tokens)

text \<open>
  Lowercasing reaches the capital letters of Latin-1 as well: U+00C9 becomes U+00E9,
  the multiplication sign U+00D7 and the sharp s U+00DF stay.
\<close>

lemma toLowerCase_latin1:
  "toLowerCase [CHR 0xC9, CHR ''a'', CHR 0xD7, CHR 0xDF, CHR ''Z'', CHR 0xDE, CHR 0xC0] =
     [CHR 0xE9, CHR ''a'', CHR 0xD7, CHR 0xDF, CHR ''z'', CHR 0xFE, CHR 0xE0]"
  by code_simp

text \<open>
  C9: for every list L of entries (plain or negated) and every permutation P of L,
  the key of P is the key of L, and the key is the tokens (the type name, with "!" in
  front when negated), lowercased, sorted and joined with "-".
\<close>

theorem queryKey_permutation:
  "mset P = mset L \<Longrightarrow>
     queryKey P = queryKey L \<and>
     queryKey L = join ''-'' (sort (map (toLowerCase \<circ> token) L)) \<and>
     token (Not_c C) = ''!'' @ getName C \<and> token (Plain C) = getName C"
proof -
  assume pl: "mset P = mset L"
  have "mset (map (toLowerCase \<circ> token) P) = mset (map (toLowerCase \<circ> token) L)"
    using pl by (metis mset_map)
  then have "sort (map (toLowerCase \<circ> token) P) = sort (map (toLowerCase \<circ> token) L)"
    by (metis properties_for_sort sorted_sort mset_sort)
  then show ?thesis
    by (simp add: queryKey_eq_spec queryKey_spec_def Not_c_def)
qed

theorem queryKey_permutation_witness:
  "queryKey [Not_c (Ctor 1 ''Beta''), Plain (Ctor 0 ''Alpha'')] =
     queryKey [Plain (Ctor 0 ''Alpha''), Not_c (Ctor 1 ''Beta'')] \<and>
   queryKey [Plain (Ctor 0 ''Alpha''), Not_c (Ctor 1 ''Beta'')] = ''!beta-alpha'' \<and>
   queryKey [Plain (Ctor 3 [CHR 0xDF]), Plain (Ctor 2 [CHR 0xC9, CHR ''a''])] =
     [CHR 0xDF, CHR ''-'', CHR 0xE9, CHR ''a'']"
proof -
  have m: "mset [Not_c (Ctor 1 ''Beta''), Plain (Ctor 0 ''Alpha'')] =
           mset [Plain (Ctor 0 ''Alpha''), Not_c (Ctor 1 ''Beta'')]"
    by (simp add: add.commute)
  have k: "queryKey [Plain (Ctor 0 ''Alpha''), Not_c (Ctor 1 ''Beta'')] = ''!beta-alpha''"
    by code_simp
  have l: "queryKey [Plain (Ctor 3 [CHR 0xDF]), Plain (Ctor 2 [CHR 0xC9, CHR ''a''])] =
     [CHR 0xDF, CHR ''-'', CHR 0xE9, CHR ''a'']"
    by code_simp
  show ?thesis
    using queryKey_permutation [OF m, of "Ctor 0 ''Alpha''"] k l by simp
qed

section \<open>Dispatching an event\<close>

lemma call_listeners_append:
  "call_listeners call (xs @ ys) payload s =
     (case call_listeners call xs payload s of Inl e \<Rightarrow> Inl e | Inr s' \<Rightarrow> call_listeners call ys payload s')"
  by (induction xs arbitrary: s) (auto split: sum.splits)











section \<open>Acquiring from a pool\<close>

lemma expand_loop_pure:
  "expand_loop (\<lambda>u. (x, u)) n (p, ()) = (p\<lparr>freeList := freeList p @ replicate n (Some x)\<rparr>, ())"
proof (induction n arbitrary: p)
  case 0
  then show ?case by simp
next
  case (Suc n)
  show ?case by (simp add: Suc.IH replicate_app_Cons_same)
qed

lemma new_component_pure: "new_component cls T = (\<lambda>u. (\<lparr>con = T, props = construct (cls T)\<rparr>, u))"
  by (rule ext) (simp add: new_component_def)

lemma pop_replicate: "pop (Some x # replicate n (Some x)) = (Some x, replicate n (Some x))"
proof -
  have "Some x # replicate n (Some x) = replicate n (Some x) @ [Some x]"
    by (simp add: replicate_append_same)
  then show ?thesis by (simp add: pop_def)
qed

lemma component_restore_restored: "component_restore cls item initial u = (restored cls item initial, u)"
  by (simp add: component_restore_def restored_def split: option.splits)

text \<open>
  What \<open>aquire\<close> returns from a pool of components: the instance popped from the free
  list (a new instance when the list was empty, after growing the pool by
  \<open>round(0.2 * count) + 1\<close>), after \<open>__init()\<close> when the class has one, else after
  \<open>copy(initialObject)\<close> when it has one, and as it was when it has neither.
\<close>

lemma aquire_by_methods:
  "(freeList p = rest @ [Some item] \<longrightarrow>
      aquire (new_component cls T) (component_restore cls) (p, ()) =
        Inr (restored cls item (initialObject p), p\<lparr>freeList := rest\<rparr>, ())) \<and>
   (freeList p = [] \<longrightarrow>
      aquire (new_component cls T) (component_restore cls) (p, ()) =
        Inr (restored cls \<lparr>con = T, props = construct (cls T)\<rparr> (initialObject p),
             p\<lparr>freeList := replicate (round_fifth (pool_count p)) (Some \<lparr>con = T, props = construct (cls T)\<rparr>),
               pool_count := pool_count p + (round_fifth (pool_count p) + 1)\<rparr>, ()))"
proof (intro conjI impI)
  assume "freeList p = rest @ [Some item]"
  then show "aquire (new_component cls T) (component_restore cls) (p, ()) =
        Inr (restored cls item (initialObject p), p\<lparr>freeList := rest\<rparr>, ())"
    by (simp add: aquire_def pop_def component_restore_restored)
next
  assume e: "freeList p = []"
  have "expand (new_component cls T) (round_fifth (pool_count p) + 1) (p, ()) =
          (p\<lparr>freeList := Some \<lparr>con = T, props = construct (cls T)\<rparr> #
                 replicate (round_fifth (pool_count p)) (Some \<lparr>con = T, props = construct (cls T)\<rparr>),
             pool_count := pool_count p + (round_fifth (pool_count p) + 1)\<rparr>, ())"
    using e by (simp add: expand_def new_component_pure expand_loop_pure)
  then show "aquire (new_component cls T) (component_restore cls) (p, ()) =
        Inr (restored cls \<lparr>con = T, props = construct (cls T)\<rparr> (initialObject p),
             p\<lparr>freeList := replicate (round_fifth (pool_count p)) (Some \<lparr>con = T, props = construct (cls T)\<rparr>),
               pool_count := pool_count p + (round_fifth (pool_count p) + 1)\<rparr>, ())"
    using e by (simp add: aquire_def pop_replicate component_restore_restored)
qed

lemma aquire_by_methods_examples:
  "aquire (new_component plain_classes Pos) (component_restore plain_classes) (used_pool, ()) =
     Inr (\<lparr>con = Pos, props = [''x'' \<mapsto> 3, ''y'' \<mapsto> 4]\<rparr>, used_pool\<lparr>freeList := []\<rparr>, ()) \<and>
   aquire (new_component reset_classes Pos) (component_restore reset_classes) (used_pool, ()) =
     Inr (\<lparr>con = Pos, props = origin\<rparr>, used_pool\<lparr>freeList := []\<rparr>, ()) \<and>
   aquire (new_component copy_classes Pos) (component_restore copy_classes) (used_pool, ()) =
     Inr (\<lparr>con = Pos, props = [''x'' \<mapsto> 0, ''y'' \<mapsto> 0]\<rparr>, used_pool\<lparr>freeList := []\<rparr>, ()) \<and>
   aquire (new_component plain_classes Pos) (component_restore plain_classes) (used_pool\<lparr>freeList := []\<rparr>, ()) =
     Inr (\<lparr>con = Pos, props = origin\<rparr>, used_pool\<lparr>freeList := [], pool_count := 2\<rparr>, ())"
proof -
  have f: "freeList used_pool = [] @ [Some \<lparr>con = Pos, props = [''x'' \<mapsto> 3, ''y'' \<mapsto> 4]\<rparr>]"
    by (simp add: used_pool_def)
  have e: "freeList (used_pool\<lparr>freeList := []\<rparr>) = []" by simp
  have m: "[''x'' \<mapsto> 3::int, ''y'' \<mapsto> 4] ++ origin = [''x'' \<mapsto> 0, ''y'' \<mapsto> 0]"
    by (rule ext) (simp add: origin_def map_add_def)
  show ?thesis
    using aquire_by_methods [of used_pool "[]" "\<lparr>con = Pos, props = [''x'' \<mapsto> 3, ''y'' \<mapsto> 4]\<rparr>" plain_classes Pos]
      aquire_by_methods [of used_pool "[]" "\<lparr>con = Pos, props = [''x'' \<mapsto> 3, ''y'' \<mapsto> 4]\<rparr>" reset_classes Pos]
      aquire_by_methods [of used_pool "[]" "\<lparr>con = Pos, props = [''x'' \<mapsto> 3, ''y'' \<mapsto> 4]\<rparr>" copy_classes Pos]
      aquire_by_methods [of "used_pool\<lparr>freeList := []\<rparr>" "[]" "\<lparr>con = Pos, props = [''x'' \<mapsto> 3, ''y'' \<mapsto> 4]\<rparr>" plain_classes Pos]
      f e m
    by (simp add: restored_def plain_classes_def reset_classes_def copy_classes_def used_pool_def
        round_fifth_def origin_def)
qed

text \<open>
  A class whose \<open>__init\<close> resets the properties, and a class whose \<open>copy\<close> takes the
  properties of its argument: the component that entity 1 held with \<open>x = 3\<close> and released
  by a forced removal comes to entity 2 with \<open>x = 0\<close>.
\<close>

lemma reset_scenario:
  "prop_of 2 Pos ''x''
     (state_of (run reset_classes
        [CreateEntity, AddComponent 1 Pos (Some [''x'' \<mapsto> 3, ''y'' \<mapsto> 4]),
         RemoveComponent 1 Pos True, CreateEntity, AddComponent 2 Pos None] World_new)) = Some 0"
  by (simp add: model_defs key_evals)

lemma copy_scenario:
  "prop_of 2 Pos ''x''
     (state_of (run copy_classes
        [CreateEntity, AddComponent 1 Pos (Some [''x'' \<mapsto> 3, ''y'' \<mapsto> 4]),
         RemoveComponent 1 Pos True, CreateEntity, AddComponent 2 Pos None] World_new)) = Some 0"
  by (simp add: model_defs key_evals)

text \<open>
  C5, at an input where the code departs from it: the class \<open>Pos\<close> has neither
  \<open>__init\<close> nor \<open>copy\<close>. Entity 1 gets a \<open>Pos\<close> with \<open>x = 3\<close>, \<open>y = 4\<close> and loses
  it by a forced removal; entity 2 then gets a \<open>Pos\<close> without values. No call throws,
  and entity 2 reads \<open>x = 3\<close>, \<open>y = 4\<close>, the values of entity 1, while the
  \<open>initialObject\<close> that the pool made at its construction holds \<open>x = 0\<close>, \<open>y = 0\<close>:
  \<open>aquire\<close> copies from it only through a \<open>copy\<close> method of the instance.
\<close>

theorem recycled_component_keeps_values:
  "\<not> thrown (run plain_classes
        [CreateEntity, AddComponent 1 Pos (Some [''x'' \<mapsto> 3, ''y'' \<mapsto> 4]),
         RemoveComponent 1 Pos True, CreateEntity, AddComponent 2 Pos None] World_new) \<and>
   prop_of 2 Pos ''x''
     (state_of (run plain_classes
        [CreateEntity, AddComponent 1 Pos (Some [''x'' \<mapsto> 3, ''y'' \<mapsto> 4]),
         RemoveComponent 1 Pos True, CreateEntity, AddComponent 2 Pos None] World_new)) = Some 3 \<and>
   prop_of 2 Pos ''y''
     (state_of (run plain_classes
        [CreateEntity, AddComponent 1 Pos (Some [''x'' \<mapsto> 3, ''y'' \<mapsto> 4]),
         RemoveComponent 1 Pos True, CreateEntity, AddComponent 2 Pos None] World_new)) = Some 4 \<and>
   map (\<lambda>(cname, pool). (cname, props (initialObject pool) ''x'', props (initialObject pool) ''y''))
     (componentPool (state_of (run plain_classes
        [CreateEntity, AddComponent 1 Pos (Some [''x'' \<mapsto> 3, ''y'' \<mapsto> 4]),
         RemoveComponent 1 Pos True, CreateEntity, AddComponent 2 Pos None] World_new))) =
     [(''pos'', Some 0, Some 0)]"
  by (simp add: model_defs key_evals)

section \<open>Statistics\<close>

lemma set_key_keys: "set (map fst (set_key k v kvs)) = insert k (set (map fst kvs))"
proof (induction kvs)
  case Nil
  then show ?case by simp
next
  case (Cons kv kvs)
  obtain k' v' where kv: "kv = (k', v')" by (cases kv)
  show ?case
  proof (cases "k' = k")
    case True
    then show ?thesis by (simp add: kv)
  next
    case False
    then show ?thesis using Cons.IH by (simp add: kv insert_commute)
  qed
qed

lemma set_key_distinct: "distinct (map fst kvs) \<Longrightarrow> distinct (map fst (set_key k v kvs))"
proof (induction kvs)
  case Nil
  then show ?case by simp
next
  case (Cons kv kvs)
  obtain k' v' where kv: "kv = (k', v')" by (cases kv)
  show ?case
  proof (cases "k' = k")
    case True
    then show ?thesis using Cons.prems by (simp add: kv)
  next
    case False
    have "k' \<notin> set (map fst (set_key k v kvs))"
      using Cons.prems False unfolding set_key_keys by (simp add: kv)
    then show ?thesis using Cons False by (simp add: kv)
  qed
qed

lemma foldl_set_key_keys:
  "set (map fst (foldl (\<lambda>acc x. set_key (f x) v acc) acc0 xs)) = set (map fst acc0) \<union> f ` set xs"
proof (induction xs arbitrary: acc0)
  case Nil
  then show ?case by simp
next
  case (Cons x xs)
  show ?case
    using Cons.IH [of "set_key (f x) v acc0"] set_key_keys [of "f x" v acc0] by auto
qed

lemma foldl_set_key_distinct:
  "distinct (map fst acc0) \<Longrightarrow> distinct (map fst (foldl (\<lambda>acc x. set_key (f x) v acc) acc0 xs))"
proof (induction xs arbitrary: acc0)
  case Nil
  then show ?case by simp
next
  case (Cons x xs)
  from Cons.IH [OF set_key_distinct [OF Cons.prems, of "f x" v]] show ?case by simp
qed

lemma map_of_keyed:
  "map_of (map (\<lambda>q. (g q, f q)) qs) k = map_option f (find (\<lambda>q. g q = k) qs)"
  by (induction qs) simp_all

lemma SystemManager_stats_names:
  "SystemManager_stats (w\<lparr>systems := map (\<lambda>s. s\<lparr>executeTime := t s, queries_s := qs s\<rparr>) (systems w)\<rparr>) =
     SystemManager_stats w"
  by (simp add: SystemManager_stats_def foldl_map)

text \<open>
  C7 (as amended): \<open>world.stats()\<close> returns \<open>undefined\<close> and changes nothing but the
  console, to which it prints the object it builds. Under \<open>entities\<close> the object holds
  the number of entities (what \<open>count()\<close> returns) and of queries, one entry for each
  query, which under the key \<open>k\<close> holds the component count and the entity count of the
  query that the manager holds under \<open>k\<close>, the number of pools, one entry for each
  pool, which under the name \<open>n\<close> holds the used count and the size of the pool of that
  name, and the counters \<open>fired\<close> and \<open>handled\<close> of the dispatcher of the entity
  manager; under \<open>system\<close> it holds the number of systems and exactly one entry for each
  constructor name of a system.
\<close>

theorem World_stats_prints:
  "fst (World_stats w) = None \<and>
   snd (World_stats w) =
     w\<lparr>console := console w @ [\<lparr>entities_st = EntityManager_stats w, system_st = SystemManager_stats w\<rparr>]\<rparr> \<and>
   numEntities (EntityManager_stats w) = EntityManager_count w \<and>
   numQueries (EntityManager_stats w) = length (qm_queries w) \<and>
   map fst (queries_st (EntityManager_stats w)) = map key (qm_queries w) \<and>
   map_of (queries_st (EntityManager_stats w)) k =
     map_option (\<lambda>q. \<lparr>numComponents_q = length (Components q), numEntities_q = length (entities q)\<rparr>)
       (find (\<lambda>q. key q = k) (qm_queries w)) \<and>
   numComponentPool (EntityManager_stats w) = length (componentPool w) \<and>
   map fst (componentPool_st (EntityManager_stats w)) = map fst (componentPool w) \<and>
   map_of (componentPool_st (EntityManager_stats w)) n =
     map_option (\<lambda>p. \<lparr>used = totalUsed p, size_p = totalSize p\<rparr>) (map_of (componentPool w) n) \<and>
   eventDispatcher_st (EntityManager_stats w) =
     (fired (em_eventDispatcher w), handled (em_eventDispatcher w)) \<and>
   numSystems (SystemManager_stats w) = length (systems w) \<and>
   distinct (map fst (systems_st (SystemManager_stats w))) \<and>
   set (map fst (systems_st (SystemManager_stats w))) = sname ` set (systems w)"
proof -
  have q: "queries_st (EntityManager_stats w) =
      map (\<lambda>q. (key q, \<lparr>numComponents_q = length (Components q), numEntities_q = length (entities q)\<rparr>))
        (qm_queries w)"
    by (simp add: EntityManager_stats_def QueryManager_stats_def Query_stats_def)
  have p: "componentPool_st (EntityManager_stats w) =
      map (\<lambda>(cname, pool). (cname, \<lparr>used = totalUsed pool, size_p = totalSize pool\<rparr>)) (componentPool w)"
    by (simp add: EntityManager_stats_def totalSize_def)
  have p2: "map_of (map (\<lambda>(cname, pool). (cname, \<lparr>used = totalUsed pool, size_p = totalSize pool\<rparr>)) ps) n =
      map_option (\<lambda>p. \<lparr>used = totalUsed p, size_p = totalSize p\<rparr>) (map_of ps n)" for ps :: "(string \<times> cinstance ObjectPool) list"
    by (induction ps) auto
  have s1: "distinct (map fst (systems_st (SystemManager_stats w)))"
    unfolding SystemManager_stats_def by (simp add: foldl_set_key_distinct)
  have s2: "set (map fst (systems_st (SystemManager_stats w))) = sname ` set (systems w)"
    unfolding SystemManager_stats_def using foldl_set_key_keys [of sname "[]" "[]" "systems w"] by simp
  have a: "fst (World_stats w) = None" by (simp add: World_stats_def Let_def)
  have b: "snd (World_stats w) =
     w\<lparr>console := console w @ [\<lparr>entities_st = EntityManager_stats w, system_st = SystemManager_stats w\<rparr>]\<rparr>"
    by (simp add: World_stats_def Let_def)
  have c: "numEntities (EntityManager_stats w) = EntityManager_count w"
    "numQueries (EntityManager_stats w) = length (qm_queries w)"
    "numComponentPool (EntityManager_stats w) = length (componentPool w)"
    "eventDispatcher_st (EntityManager_stats w) = (fired (em_eventDispatcher w), handled (em_eventDispatcher w))"
    "numSystems (SystemManager_stats w) = length (systems w)"
    by (simp_all add: EntityManager_stats_def EntityManager_count_def SystemManager_stats_def)
  have q1: "map fst (queries_st (EntityManager_stats w)) = map key (qm_queries w)"
    unfolding q by (simp add: comp_def)
  have q2: "map_of (queries_st (EntityManager_stats w)) k =
     map_option (\<lambda>q. \<lparr>numComponents_q = length (Components q), numEntities_q = length (entities q)\<rparr>)
       (find (\<lambda>q. key q = k) (qm_queries w))"
    unfolding q by (rule map_of_keyed)
  have p1: "map fst (componentPool_st (EntityManager_stats w)) = map fst (componentPool w)"
    unfolding p by (simp add: comp_def case_prod_beta)
  have p3: "map_of (componentPool_st (EntityManager_stats w)) n =
     map_option (\<lambda>p. \<lparr>used = totalUsed p, size_p = totalSize p\<rparr>) (map_of (componentPool w) n)"
    unfolding p by (rule p2)
  show ?thesis
    by (intro conjI a b c q1 q2 p1 p3 s1 s2)
qed


text \<open>
  C7 as stated fails. The system \<open>Mover\<close> has the query \<open>moving\<close> (key \<open>a\<close>) and has run
  for the time 5; one entity owns \<open>A\<close>. The value of \<open>world.stats()\<close> is \<open>undefined\<close>, and
  the object it prints holds, for the system, neither the key of its query nor a time.
\<close>

theorem World_stats_returns_undefined:
  "fst (World_stats ticked) = None \<and>
   map (\<lambda>s. (sname s, executeTime s, queries_s s)) (systems ticked) = [(''Mover'', 5, [(''moving'', ''a'')])] \<and>
   console (snd (World_stats ticked)) =
     [\<lparr>entities_st =
         \<lparr>numEntities = 1, numQueries = 1,
          queries_st = [(''a'', \<lparr>numComponents_q = 1, numEntities_q = 1\<rparr>)],
          numComponentPool = 1,
          componentPool_st = [(''a'', \<lparr>used = 1, size_p = 1\<rparr>)],
          eventDispatcher_st = (2, 0)\<rparr>,
       system_st = \<lparr>numSystems = 1, systems_st = [(''Mover'', [])]\<rparr>\<rparr>]"
  by (simp add: ticked_def mover_def World_execute_def World_stats_def EntityManager_stats_def
      QueryManager_stats_def Query_stats_def SystemManager_stats_def totalUsed_def
      model_defs key_evals)


section \<open>Removing a forbidden component type\<close>

text \<open>
  C2, at an input where the code departs from it: the query requires \<open>A\<close> and forbids
  \<open>B\<close>; entity 1 owns \<open>B\<close> only. Removing \<open>B\<close> (forced) puts entity 1 in the
  entity list of the query, though it owns no \<open>A\<close> afterwards:
  \<open>onEntityComponentRemoved\<close> adds on a forbidden type without calling \<open>match\<close>.
\<close>

theorem removed_forbidden_type_adds_unmatched:
  "\<not> thrown (run plain_classes
      [QueryComponents [Plain A, Not_c B], CreateEntity, AddComponent 1 B None,
       RemoveComponent 1 B True] World_new) \<and>
   members ''!b-a'' (state_of (run plain_classes
      [QueryComponents [Plain A, Not_c B], CreateEntity, AddComponent 1 B None,
       RemoveComponent 1 B True] World_new)) = [1] \<and>
   types_of 1 (state_of (run plain_classes
      [QueryComponents [Plain A, Not_c B], CreateEntity, AddComponent 1 B None,
       RemoveComponent 1 B True] World_new)) = []"
  by (simp add: model_defs key_evals)

section \<open>What the operations of the managers change\<close>

text \<open>
  Dispatching to the listeners of systems changes buffers only; the three loops of the
  query manager change the entity lists as \<open>added_entities\<close> and \<open>removed_entities\<close>
  say; adding and removing a component change the rest of the world as stated in the
  lemmas on \<open>core\<close>.
\<close>

lemma call_listener_dispatcher: "fst (state_of (call_listener h p (d, sy))) = d"
  by (cases h) (simp_all add: state_of_def split: option.splits comp_arg.splits)

lemma call_listener_Inl: "call_listener h p (d, sy) = Inl (e, s) \<Longrightarrow> s = (d, sy)"
  by (cases h) (simp_all split: option.splits comp_arg.splits if_splits)

lemma call_listeners_dispatcher:
  "fst (state_of (call_listeners call_listener hs p (d, sy))) = d"
proof (induction hs arbitrary: sy)
  case Nil
  show ?case by (simp add: state_of_def)
next
  case (Cons h hs)
  show ?case
  proof (cases "call_listener h p (d, sy)")
    case (Inl a)
    obtain e s where a: "a = (e, s)" by (cases a)
    have "s = (d, sy)" using Inl a call_listener_Inl by blast
    then show ?thesis using Inl a by (simp add: state_of_def)
  next
    case (Inr s)
    obtain d' sy' where s: "s = (d', sy')" by (cases s)
    have "d' = d" using call_listener_dispatcher [of h p d sy] Inr s by (simp add: state_of_def)
    then show ?thesis using Inr s Cons.IH [of sy'] by simp
  qed
qed

lemma dispatchEvent_dispatcher:
  "fst (state_of (dispatchEvent call_listener ev p (d, sy))) = d\<lparr>fired := fired d + 1\<rparr>"
proof (cases "listeners d ev")
  case None
  then show ?thesis by (simp add: dispatchEvent_def Let_def state_of_def)
next
  case (Some ls)
  then show ?thesis
    using call_listeners_dispatcher [of ls p "d\<lparr>fired := fired d + 1\<rparr>" sy]
    by (simp add: dispatchEvent_def Let_def)
qed

lemma Query_dispatch_Inr:
  assumes "Query_dispatch ev p (q, w) = Inr (q', w')"
  shows "q' = q\<lparr>eventDispatcher := bump (eventDispatcher q)\<rparr> \<and> (\<exists>sy. w' = w\<lparr>systems := sy\<rparr>)"
proof (cases "dispatchEvent call_listener ev p (eventDispatcher q, systems w)")
  case (Inl a)
  then show ?thesis using assms by (simp add: Query_dispatch_def split: prod.splits)
next
  case (Inr s)
  obtain d sy where s: "s = (d, sy)" by (cases s)
  have "d = bump (eventDispatcher q)"
    using dispatchEvent_dispatcher [of ev p "eventDispatcher q" "systems w"] Inr s
    by (simp add: state_of_def bump_def)
  then show ?thesis using assms Inr s by (auto simp: Query_dispatch_def)
qed

lemma em_dispatch_Inr:
  assumes "em_dispatch ev p w = Inr w'"
  shows "\<exists>sy. w' = w\<lparr>em_eventDispatcher := bump (em_eventDispatcher w), systems := sy\<rparr>"
proof (cases "dispatchEvent call_listener ev p (em_eventDispatcher w, systems w)")
  case (Inl a)
  then show ?thesis using assms by (simp add: em_dispatch_def split: prod.splits)
next
  case (Inr s)
  obtain d sy where s: "s = (d, sy)" by (cases s)
  have "d = bump (em_eventDispatcher w)"
    using dispatchEvent_dispatcher [of ev p "em_eventDispatcher w" "systems w"] Inr s
    by (simp add: state_of_def bump_def)
  then show ?thesis using assms Inr s by (auto simp: em_dispatch_def)
qed

lemma Query_addEntity_Inr:
  assumes "Query_addEntity e (q, w) = Inr (q', w')"
  shows "q' = q\<lparr>entities := entities q @ [e], eventDispatcher := bump (eventDispatcher q)\<rparr> \<and>
         (\<exists>sy. w' = w\<lparr>heap := (heap w)(e := (heap w e)\<lparr>queries := queries (heap w e) @ [key q]\<rparr>),
                        systems := sy\<rparr>)"
  using Query_dispatch_Inr [OF assms [unfolded Query_addEntity_def prod.case]] by auto

lemma Query_removeEntity_Inr:
  assumes "Query_removeEntity e (q, w) = Inr (q', w')"
  shows "(e \<notin> set (entities q) \<longrightarrow> q' = q \<and> w' = w) \<and>
         (e \<in> set (entities q) \<longrightarrow>
            q' = q\<lparr>entities := remove1 e (entities q), eventDispatcher := bump (eventDispatcher q)\<rparr> \<and>
            (\<exists>sy. w' = w\<lparr>heap := (heap w)(e := (heap w e)\<lparr>queries :=
                              splice1 (indexOf (queries (heap w e)) (key q)) (queries (heap w e))\<rparr>),
                           systems := sy\<rparr>))"
proof (cases "e \<in> set (entities q)")
  case False
  then show ?thesis using assms by (simp add: Query_removeEntity_def Let_def indexOf_absent)
next
  case True
  then have "Query_dispatch ENTITY_REMOVED_q (e, NoArg)
       (q\<lparr>entities := remove1 e (entities q)\<rparr>,
        w\<lparr>heap := (heap w)(e := (heap w e)\<lparr>queries :=
               splice1 (indexOf (queries (heap w e)) (key q)) (queries (heap w e))\<rparr>)\<rparr>) = Inr (q', w')"
    using assms by (simp add: Query_removeEntity_def Let_def indexOf_absent splice1_indexOf)
  from Query_dispatch_Inr [OF this] True show ?thesis by auto
qed

lemma match_required_iff:
  "match_required Cs tys r = (r \<and> set Cs \<subseteq> set tys)"
  by (induction Cs arbitrary: r) (auto simp: indexOf_absent)

lemma match_forbidden_iff:
  "match_forbidden Cs tys r = (r \<and> set Cs \<inter> set tys = {})"
  by (induction Cs arbitrary: r) (auto simp: indexOf_absent)

lemma match_iff:
  "match q ent = (set (Components q) \<subseteq> set (ComponentTypes ent) \<and>
                  set (NotComponents q) \<inter> set (ComponentTypes ent) = {})"
  by (simp add: match_def match_required_iff match_forbidden_iff)

lemma qframe_refl: "qframe w w"
proof -
  have "w = w\<lparr>heap := heap w, systems := systems w, qm_queries := qm_queries w\<rparr>" by simp
  moreover have "\<forall>r. \<exists>qs. heap w r = (heap w r)\<lparr>queries := qs\<rparr>"
  proof
    fix r
    have "heap w r = (heap w r)\<lparr>queries := queries (heap w r)\<rparr>" by simp
    then show "\<exists>qs. heap w r = (heap w r)\<lparr>queries := qs\<rparr>" by (rule exI)
  qed
  ultimately show ?thesis unfolding qframe_def by blast
qed

lemma qframe_trans:
  assumes "qframe w1 w2" "qframe w2 w3"
  shows "qframe w1 w3"
proof -
  from assms(1) obtain hp sy ql where a: "w2 = w1\<lparr>heap := hp, systems := sy, qm_queries := ql\<rparr>"
    and a': "\<forall>r. \<exists>qs. hp r = (heap w1 r)\<lparr>queries := qs\<rparr>" unfolding qframe_def by blast
  from assms(2) obtain hp' sy' ql' where b: "w3 = w2\<lparr>heap := hp', systems := sy', qm_queries := ql'\<rparr>"
    and b': "\<forall>r. \<exists>qs. hp' r = (heap w2 r)\<lparr>queries := qs\<rparr>" unfolding qframe_def by blast
  have c: "w3 = w1\<lparr>heap := hp', systems := sy', qm_queries := ql'\<rparr>" using a b by simp
  have "\<forall>r. \<exists>qs. hp' r = (heap w1 r)\<lparr>queries := qs\<rparr>"
  proof
    fix r
    from a' obtain qs where q1: "hp r = (heap w1 r)\<lparr>queries := qs\<rparr>" by blast
    from b' obtain qs' where q2: "hp' r = (heap w2 r)\<lparr>queries := qs'\<rparr>" by blast
    have "hp' r = (heap w1 r)\<lparr>queries := qs'\<rparr>" using q1 q2 a by simp
    then show "\<exists>qs. hp' r = (heap w1 r)\<lparr>queries := qs\<rparr>" by (rule exI)
  qed
  with c show ?thesis unfolding qframe_def by blast
qed

lemma qframe_upd:
  "qframe w (w\<lparr>heap := (heap w)(e := (heap w e)\<lparr>queries := qs\<rparr>), systems := sy, qm_queries := ql\<rparr>)"
proof -
  have "\<forall>r. \<exists>qs'. ((heap w)(e := (heap w e)\<lparr>queries := qs\<rparr>)) r = (heap w r)\<lparr>queries := qs'\<rparr>"
  proof
    fix r
    show "\<exists>qs'. ((heap w)(e := (heap w e)\<lparr>queries := qs\<rparr>)) r = (heap w r)\<lparr>queries := qs'\<rparr>"
    proof (cases "r = e")
      case True
      then show ?thesis by auto
    next
      case False
      then have "((heap w)(e := (heap w e)\<lparr>queries := qs\<rparr>)) r = (heap w r)\<lparr>queries := queries (heap w r)\<rparr>"
        by simp
      then show ?thesis by (rule exI)
    qed
  qed
  then show ?thesis unfolding qframe_def by blast
qed

lemma qframe_fields:
  assumes "qframe w w'"
  shows "core w' = core w"
    and "ComponentTypes (heap w' r) = ComponentTypes (heap w r)"
    and "has_world (heap w' r) = has_world (heap w r)"
    and "componentsToRemove (heap w' r) = componentsToRemove (heap w r)"
    and "components (heap w' r) = components (heap w r)"
    and "componentPool w' = componentPool w"
    and "numComponents w' = numComponents w"
    and "em_eventDispatcher w' = em_eventDispatcher w"
    and "em_entities w' = em_entities w"
    and "entityPool w' = entityPool w"
proof -
  from assms obtain hp sy ql where a: "w' = w\<lparr>heap := hp, systems := sy, qm_queries := ql\<rparr>"
    and a': "\<forall>r. \<exists>qs. hp r = (heap w r)\<lparr>queries := qs\<rparr>" unfolding qframe_def by blast
  have f: "\<And>r. ComponentTypes (hp r) = ComponentTypes (heap w r) \<and>
               has_world (hp r) = has_world (heap w r) \<and>
               componentsToRemove (hp r) = componentsToRemove (heap w r) \<and>
               components (hp r) = components (heap w r)"
  proof -
    fix r
    from a' obtain qs where "hp r = (heap w r)\<lparr>queries := qs\<rparr>" by blast
    then show "ComponentTypes (hp r) = ComponentTypes (heap w r) \<and>
               has_world (hp r) = has_world (heap w r) \<and>
               componentsToRemove (hp r) = componentsToRemove (heap w r) \<and>
               components (hp r) = components (heap w r)" by simp
  qed
  show "core w' = core w" using a f by (simp add: core_def)
  show "ComponentTypes (heap w' r) = ComponentTypes (heap w r)" using a f by simp
  show "has_world (heap w' r) = has_world (heap w r)" using a f by simp
  show "componentsToRemove (heap w' r) = componentsToRemove (heap w r)" using a f by simp
  show "components (heap w' r) = components (heap w r)" using a f by simp
  show "componentPool w' = componentPool w" using a by simp
  show "numComponents w' = numComponents w" using a by simp
  show "em_eventDispatcher w' = em_eventDispatcher w" using a by simp
  show "em_entities w' = em_entities w" using a by simp
  show "entityPool w' = entityPool w" using a by simp
qed

lemma qframe_set_queries: "qframe w w1 \<Longrightarrow> qframe w (w1\<lparr>qm_queries := ql\<rparr>)"
proof -
  assume "qframe w w1"
  then obtain hp sy ql' where a: "w1 = w\<lparr>heap := hp, systems := sy, qm_queries := ql'\<rparr>"
    and a': "\<forall>r. \<exists>qs. hp r = (heap w r)\<lparr>queries := qs\<rparr>" unfolding qframe_def by blast
  have "w1\<lparr>qm_queries := ql\<rparr> = w\<lparr>heap := hp, systems := sy, qm_queries := ql\<rparr>" using a by simp
  with a' show ?thesis unfolding qframe_def by blast
qed

lemma Query_addEntity_frame:
  assumes "Query_addEntity e (q, w) = Inr (q', w')"
  shows "qframe w w' \<and> entities q' = entities q @ [e] \<and> qstatic q' = qstatic q"
proof -
  from Query_addEntity_Inr [OF assms] obtain sy where
    q: "q' = q\<lparr>entities := entities q @ [e], eventDispatcher := bump (eventDispatcher q)\<rparr>" and
    w: "w' = w\<lparr>heap := (heap w)(e := (heap w e)\<lparr>queries := queries (heap w e) @ [key q]\<rparr>), systems := sy\<rparr>"
    by blast
  have eq: "w' = w\<lparr>heap := (heap w)(e := (heap w e)\<lparr>queries := queries (heap w e) @ [key q]\<rparr>),
                 systems := sy, qm_queries := qm_queries w\<rparr>" using w by simp
  have "qframe w w'" unfolding eq by (rule qframe_upd)
  then show ?thesis using q by (simp add: qstatic_def bump_def)
qed

lemma Query_removeEntity_frame:
  assumes "Query_removeEntity e (q, w) = Inr (q', w')"
  shows "qframe w w' \<and> entities q' = remove1 e (entities q) \<and> qstatic q' = qstatic q"
proof (cases "e \<in> set (entities q)")
  case False
  then show ?thesis using Query_removeEntity_Inr [OF assms] qframe_refl by (simp add: remove1_idem)
next
  case True
  with Query_removeEntity_Inr [OF assms] obtain sy where
    q: "q' = q\<lparr>entities := remove1 e (entities q), eventDispatcher := bump (eventDispatcher q)\<rparr>" and
    w: "w' = w\<lparr>heap := (heap w)(e := (heap w e)\<lparr>queries :=
                   splice1 (indexOf (queries (heap w e)) (key q)) (queries (heap w e))\<rparr>), systems := sy\<rparr>"
    by blast
  have eq: "w' = w\<lparr>heap := (heap w)(e := (heap w e)\<lparr>queries :=
                   splice1 (indexOf (queries (heap w e)) (key q)) (queries (heap w e))\<rparr>),
                 systems := sy, qm_queries := qm_queries w\<rparr>" using w by simp
  have "qframe w w'" unfolding eq by (rule qframe_upd)
  then show ?thesis using q by (simp add: qstatic_def bump_def)
qed


lemma onEntityComponentRemoved_step_frame:
  assumes "onEntityComponentRemoved_step e C (q, w) = Inr (q', w')"
  shows "qframe w w' \<and> entities q' = removed_entities e C (ComponentTypes (heap w e)) q \<and>
         qstatic q' = qstatic q"
proof -
  consider (add) "C \<in> set (NotComponents q) \<and> e \<notin> set (entities q)"
    | (skip) "\<not> (C \<in> set (NotComponents q) \<and> e \<notin> set (entities q))"
        "C \<notin> set (Components q) \<or> \<not> matches q (ComponentTypes (heap w e))"
    | (rem) "\<not> (C \<in> set (NotComponents q) \<and> e \<notin> set (entities q))"
        "C \<in> set (Components q)" "matches q (ComponentTypes (heap w e))"
    by blast
  then show ?thesis
  proof cases
    case add
    then have "Query_addEntity e (q, w) = Inr (q', w')"
      using assms by (simp add: onEntityComponentRemoved_step_def indexOf_absent)
    from Query_addEntity_frame [OF this] add show ?thesis by (simp add: removed_entities_def)
  next
    case skip
    have m: "match q (heap w e) = matches q (ComponentTypes (heap w e))"
      by (simp add: match_iff matches_def)
    have "q' = q \<and> w' = w"
      using assms skip
      by (simp add: onEntityComponentRemoved_step_def indexOf_absent m split: if_splits)
    then show ?thesis using skip qframe_refl by (auto simp: removed_entities_def)
  next
    case rem
    have m: "match q (heap w e) = matches q (ComponentTypes (heap w e))"
      by (simp add: match_iff matches_def)
    have "Query_removeEntity e (q, w) = Inr (q', w')"
      using assms rem
      by (simp add: onEntityComponentRemoved_step_def indexOf_absent m split: if_splits)
    from Query_removeEntity_frame [OF this] rem show ?thesis by (auto simp: removed_entities_def)
  qed
qed


lemma each_query_rel:
  assumes step: "\<And>q w q' w'. qframe w0 w \<Longrightarrow> f (q, w) = Inr (q', w') \<Longrightarrow> qframe w w' \<and> R q q'"
  shows "each_query f qs w = Inr (qs', w') \<Longrightarrow> qframe w0 w \<Longrightarrow> qframe w0 w' \<and> list_all2 R qs qs'"
proof (induction qs arbitrary: w qs')
  case Nil
  then show ?case by simp
next
  case (Cons q qs)
  from Cons.prems(1) obtain q1 w1 where s1: "f (q, w) = Inr (q1, w1)"
    by (cases "f (q, w)") (auto split: prod.splits)
  from Cons.prems(1) s1 obtain qs1 where s2: "each_query f qs w1 = Inr (qs1, w')" and e: "qs' = q1 # qs1"
    by (cases "each_query f qs w1") (auto split: prod.splits)
  from step [OF Cons.prems(2) s1] have f1: "qframe w w1" and r1: "R q q1" by simp_all
  have "qframe w0 w1" using Cons.prems(2) f1 by (rule qframe_trans)
  from Cons.IH [OF s2 this] r1 e show ?case by simp
qed

lemma for_queries_rel:
  assumes step: "\<And>q w1 q' w'. qframe w w1 \<Longrightarrow> f (q, w1) = Inr (q', w') \<Longrightarrow> qframe w1 w' \<and> R q q'"
    and run: "for_queries f w = Inr w'"
  shows "qframe w w' \<and> list_all2 R (qm_queries w) (qm_queries w')"
proof -
  from run obtain qs w1 where e: "each_query f (qm_queries w) w = Inr (qs, w1)"
    and w': "w' = w1\<lparr>qm_queries := qs\<rparr>"
    by (cases "each_query f (qm_queries w) w") (auto simp: for_queries_def split: prod.splits)
  from each_query_rel [of w f R, OF step e qframe_refl] have "qframe w w1" "list_all2 R (qm_queries w) qs"
    by simp_all
  then show ?thesis using w' qframe_set_queries by simp
qed


lemma onEntityComponentRemoved_rel:
  assumes "onEntityComponentRemoved e C w = Inr w'"
  shows "qframe w w' \<and> list_all2 (R_rem e C (ComponentTypes (heap w e))) (qm_queries w) (qm_queries w')"
proof (rule for_queries_rel [OF _ assms [unfolded onEntityComponentRemoved_def]])
  fix q w1 q' w'
  assume f: "qframe w w1" and s: "onEntityComponentRemoved_step e C (q, w1) = Inr (q', w')"
  from onEntityComponentRemoved_step_frame [OF s] qframe_fields(2) [OF f, of e]
  show "qframe w1 w' \<and> R_rem e C (ComponentTypes (heap w e)) q q'" by (simp add: R_rem_def)
qed


lemma and_then_Inr: "and_then r f = Inr s' \<Longrightarrow> \<exists>s. r = Inr s \<and> f s = Inr s'"
  by (cases r) (simp_all add: and_then_def)

lemma em_dispatch_core:
  assumes "em_dispatch ev p w = Inr w'"
  shows "core w' = (core w)\<lparr>a_fired := a_fired (core w) + 1\<rparr>" and "qm_queries w' = qm_queries w"
    and "heap w' = heap w" and "componentPool w' = componentPool w"
    and "numComponents w' = numComponents w" and "entityPool w' = entityPool w"
proof -
  from em_dispatch_Inr [OF assms] obtain sy where
    w: "w' = w\<lparr>em_eventDispatcher := bump (em_eventDispatcher w), systems := sy\<rparr>" by blast
  show "core w' = (core w)\<lparr>a_fired := a_fired (core w) + 1\<rparr>" using w by (simp add: core_def bump_def)
  show "qm_queries w' = qm_queries w" using w by simp
  show "heap w' = heap w" using w by simp
  show "componentPool w' = componentPool w" using w by simp
  show "numComponents w' = numComponents w" using w by simp
  show "entityPool w' = entityPool w" using w by simp
qed

lemma core_heap_upd:
  "core (w\<lparr>heap := (heap w)(e := ent)\<rparr>) =
     (core w)\<lparr>a_types := (a_types (core w))(e := ComponentTypes ent),
              a_alive := (a_alive (core w))(e := has_world ent),
              a_pending := (a_pending (core w))(e := componentsToRemove ent)\<rparr>"
  by (simp add: core_def fun_eq_iff)

lemma core_triv:
  "(a_types (core w))(e := ComponentTypes (heap w e)) = a_types (core w)"
  "(a_alive (core w))(e := has_world (heap w e)) = a_alive (core w)"
  "(a_pending (core w))(e := componentsToRemove (heap w e)) = a_pending (core w)"
  by (simp_all add: core_def fun_eq_iff)

lemma core_apply:
  "a_types (core w) r = ComponentTypes (heap w r)" "a_alive (core w) r = has_world (heap w r)"
  "a_pending (core w) r = componentsToRemove (heap w r)" "a_store (core w) = em_entities w"
  "a_free (core w) = freeList (entityPool w)" "a_nobjects (core w) = nobjects w"
  "a_toRemove (core w) = entitiesToRemove w" "a_withComps (core w) = entitiesWithComponentsToRemove w"
  "a_fired (core w) = fired (em_eventDispatcher w)"
  by (simp_all add: core_def)

lemma set_pool_keys: "map fst (componentPool (set_pool name p w)) = map fst (componentPool w)"
  by (simp add: set_pool_def case_prod_unfold comp_def)

lemma set_pool_core: "core (set_pool name p w) = core w"
  using set_pool_keys [of name p w] by (simp add: core_def set_pool_def)

lemma set_pool_fields:
  "heap (set_pool name p w) = heap w" "qm_queries (set_pool name p w) = qm_queries w"
  by (simp_all add: set_pool_def)



lemma componentRemovedFromEntity_core:
  "core (componentRemovedFromEntity C w) = core w"
  "qm_queries (componentRemovedFromEntity C w) = qm_queries w"
  by (simp_all add: componentRemovedFromEntity_def core_def)

lemma list_all2_same_queries: "qs' = qs \<Longrightarrow> list_all2 (\<lambda>q q'. q' = q) qs qs'"
  by (simp add: list_all2_same)



lemma entityRemoveComponentSync_effect:
  assumes "entityRemoveComponentSync e C index w = Inr w'"
  shows "core w' = (core w)\<lparr>a_types := (a_types (core w))(e := splice1 index (ComponentTypes (heap w e)))\<rparr>"
    and "qm_queries w' = qm_queries w"
    and "componentPropertyName C \<in> a_pools (core w)"
proof -
  define w1 where "w1 = w\<lparr>heap := (heap w)(e :=
      (heap w e)\<lparr>ComponentTypes := splice1 index (ComponentTypes (heap w e)),
                  components := (components (heap w e))(getName C := None)\<rparr>)\<rparr>"
  from assms obtain pool where
    mp: "map_of (componentPool w1) (componentPropertyName C) = Some pool" and
    w': "w' = componentRemovedFromEntity C
           (set_pool (componentPropertyName C) (release (components (heap w e) (getName C)) pool) w1)"
    unfolding entityRemoveComponentSync_def Let_def w1_def [symmetric]
    by (cases "map_of (componentPool w1) (componentPropertyName C)") auto
  have c1: "core w1 = (core w)\<lparr>a_types := (a_types (core w))(e := splice1 index (ComponentTypes (heap w e)))\<rparr>"
    by (auto simp: w1_def core_def fun_eq_iff)
  show "core w' = (core w)\<lparr>a_types := (a_types (core w))(e := splice1 index (ComponentTypes (heap w e)))\<rparr>"
    using c1 by (simp add: w' componentRemovedFromEntity_core set_pool_core)
  show "qm_queries w' = qm_queries w"
    by (simp add: w' componentRemovedFromEntity_core set_pool_fields w1_def)
  have "componentPropertyName C \<in> set (map fst (componentPool w1))"
    using mp by (metis map_of_eq_None_iff option.distinct(1) set_map)
  then show "componentPropertyName C \<in> a_pools (core w)" by (simp add: w1_def core_def)
qed

lemma entityRemoveComponentSync_total:
  assumes "componentPropertyName C \<in> a_pools (core w)"
  shows "\<exists>w'. entityRemoveComponentSync e C index w = Inr w'"
proof -
  from assms have "componentPropertyName C \<in> fst ` set (componentPool w)" by (simp add: core_def)
  then obtain pool where "map_of (componentPool w) (componentPropertyName C) = Some pool"
    by (metis map_of_eq_None_iff not_None_eq)
  then show ?thesis by (simp add: entityRemoveComponentSync_def Let_def)
qed

lemma entityRemoveComponent_absent:
  "C \<notin> set (ComponentTypes (heap w e)) \<Longrightarrow> entityRemoveComponent e C force w = Inr w"
  by (simp add: entityRemoveComponent_def indexOf_absent)

lemma entityRemoveComponent_effect:
  assumes run: "entityRemoveComponent e C force w = Inr w'"
    and own: "C \<in> set (ComponentTypes (heap w e))"
  shows "list_all2 (R_rem e C (ComponentTypes (heap w e))) (qm_queries w) (qm_queries w') \<and>
         (force \<longrightarrow> core w' = (core w)\<lparr>a_types := (a_types (core w))(e := remove1 C (ComponentTypes (heap w e))),
                                        a_fired := a_fired (core w) + 1\<rparr>) \<and>
         (\<not> force \<longrightarrow> core w' = (core w)\<lparr>a_pending := (a_pending (core w))(e := componentsToRemove (heap w e) @ [C]),
                                          a_withComps := (if componentsToRemove (heap w e) = []
                                                          then entitiesWithComponentsToRemove w @ [e]
                                                          else entitiesWithComponentsToRemove w),
                                          a_fired := a_fired (core w) + 1\<rparr>)"
proof -
  define index where "index = indexOf (ComponentTypes (heap w e)) C"
  have ne: "index \<noteq> -1" using own by (simp add: index_def indexOf_absent)
  define tail where "tail = (\<lambda>w2. if force
                       then entityRemoveComponentSync e C index w2
                       else
                         (let w3 = (if length (componentsToRemove (heap w2 e)) = 0
                                    then w2\<lparr>entitiesWithComponentsToRemove :=
                                             entitiesWithComponentsToRemove w2 @ [e]\<rparr>
                                    else w2)
                          in Inr (w3\<lparr>heap := (heap w3)(e :=
                                     (heap w3 e)\<lparr>componentsToRemove :=
                                        componentsToRemove (heap w3 e) @ [C]\<rparr>)\<rparr>)))"
  have "and_then (em_dispatch COMPONENT_REMOVE (e, CtorArg C) w)
          (\<lambda>w1. and_then (onEntityComponentRemoved e C w1) tail) = Inr w'"
    using run ne unfolding entityRemoveComponent_def index_def [symmetric] Let_def tail_def by simp
  from and_then_Inr [OF this] obtain w1 where
    d1: "em_dispatch COMPONENT_REMOVE (e, CtorArg C) w = Inr w1" and
    r1: "and_then (onEntityComponentRemoved e C w1) tail = Inr w'" by blast
  from and_then_Inr [OF r1] obtain w2 where
    o2: "onEntityComponentRemoved e C w1 = Inr w2" and t2: "tail w2 = Inr w'" by blast
  note e1 = em_dispatch_core [OF d1]
  from onEntityComponentRemoved_rel [OF o2] have f2: "qframe w1 w2"
    and r2: "list_all2 (R_rem e C (ComponentTypes (heap w1 e))) (qm_queries w1) (qm_queries w2)" by simp_all
  have c2: "core w2 = (core w)\<lparr>a_fired := a_fired (core w) + 1\<rparr>"
    using qframe_fields(1) [OF f2] e1(1) by simp
  have rel: "list_all2 (R_rem e C (ComponentTypes (heap w e))) (qm_queries w) (qm_queries w2)"
    using r2 e1(2,3) by simp
  have ty2: "ComponentTypes (heap w2 e) = ComponentTypes (heap w e)"
    using qframe_fields(2) [OF f2, of e] e1(3) by simp
  have pe2: "componentsToRemove (heap w2 e) = componentsToRemove (heap w e)"
    using qframe_fields(4) [OF f2, of e] e1(3) by simp
  show ?thesis
  proof (cases force)
    case True
    then have s: "entityRemoveComponentSync e C index w2 = Inr w'" using t2 by (simp add: tail_def)
    have sp: "splice1 index (ComponentTypes (heap w e)) = remove1 C (ComponentTypes (heap w e))"
      using own by (simp add: index_def splice1_indexOf)
    from entityRemoveComponentSync_effect(1,2) [OF s] c2 ty2 sp rel True show ?thesis by simp
  next
    case False
    have wc: "entitiesWithComponentsToRemove w2 = entitiesWithComponentsToRemove w"
      using arg_cong [OF c2, of a_withComps] by (simp add: core_apply)
    define w3 where "w3 = (if length (componentsToRemove (heap w2 e)) = 0
                           then w2\<lparr>entitiesWithComponentsToRemove := entitiesWithComponentsToRemove w2 @ [e]\<rparr>
                           else w2)"
    have w': "w' = w3\<lparr>heap := (heap w3)(e := (heap w3 e)\<lparr>componentsToRemove :=
                                        componentsToRemove (heap w3 e) @ [C]\<rparr>)\<rparr>"
      using t2 False by (simp add: tail_def Let_def w3_def)
    have c3: "core w3 = (core w2)\<lparr>a_withComps := (if componentsToRemove (heap w2 e) = []
                                             then entitiesWithComponentsToRemove w2 @ [e]
                                             else entitiesWithComponentsToRemove w2)\<rparr>"
      by (simp add: w3_def core_def)
    have h3: "heap w3 = heap w2" by (simp add: w3_def)
    have "core w' = (core w3)\<lparr>a_pending := (a_pending (core w3))(e := componentsToRemove (heap w3 e) @ [C])\<rparr>"
      unfolding w' core_heap_upd by (simp add: core_triv)
    then have "core w' = (core w2)\<lparr>a_pending := (a_pending (core w2))(e := componentsToRemove (heap w2 e) @ [C]),
                             a_withComps := (if componentsToRemove (heap w2 e) = []
                                             then entitiesWithComponentsToRemove w2 @ [e]
                                             else entitiesWithComponentsToRemove w2)\<rparr>"
      unfolding c3 h3 by simp
    moreover have "qm_queries w' = qm_queries w2"
      by (simp add: w' w3_def)
    ultimately show ?thesis using c2 pe2 wc rel False by simp
  qed
qed


section \<open>Calls that cannot throw\<close>

text \<open>
  In a calm world the dispatches of the entity manager and of the queries return, and
  with them the three loops of the query manager and \<open>removeComponent\<close>.
\<close>

lemma call_listeners_unique_total:
  "list_all is_unique ls \<Longrightarrow> \<exists>s'. call_listeners call_listener ls p s = Inr s'"
proof (induction ls arbitrary: s)
  case Nil
  then show ?case by simp
next
  case (Cons h hs)
  obtain d sy where s: "s = (d, sy)" by (cases s)
  from Cons.prems obtain i n en where h: "h = PushUnique i n en" by (cases h) auto
  from Cons.prems have "list_all is_unique hs" by simp
  from Cons.IH [OF this] show ?case by (simp add: h s)
qed

lemma dispatchEvent_total:
  assumes "quiet_topic d ev"
  shows "\<exists>s'. dispatchEvent call_listener ev p (d, sy) = Inr s'"
proof (cases "listeners d ev")
  case None
  then show ?thesis by (simp add: dispatchEvent_def Let_def)
next
  case (Some ls)
  with assms have "list_all is_unique ls" by (simp add: quiet_topic_def)
  from call_listeners_unique_total [OF this] Some show ?thesis
    by (simp add: dispatchEvent_def Let_def)
qed

lemma Query_dispatch_total:
  assumes "quiet_topic (eventDispatcher q) ev"
  shows "\<exists>r. Query_dispatch ev p (q, w) = Inr r"
proof -
  from dispatchEvent_total [OF assms] obtain s' where
    "dispatchEvent call_listener ev p (eventDispatcher q, systems w) = Inr s'" by blast
  then show ?thesis by (cases s') (simp add: Query_dispatch_def)
qed

lemma em_dispatch_total:
  assumes "quiet_topic (em_eventDispatcher w) ev"
  shows "\<exists>w'. em_dispatch ev p w = Inr w'"
proof -
  from dispatchEvent_total [OF assms] obtain s' where
    "dispatchEvent call_listener ev p (em_eventDispatcher w, systems w) = Inr s'" by blast
  then show ?thesis by (cases s') (simp add: em_dispatch_def)
qed

lemma calm_query_static: "qstatic q' = qstatic q \<Longrightarrow> calm_query q' = calm_query q"
  by (simp add: calm_query_def quiet_topic_def qstatic_def)

lemma Query_addEntity_total:
  assumes "calm_query q"
  shows "\<exists>r. Query_addEntity e (q, w) = Inr r"
proof -
  have "quiet_topic (eventDispatcher (q\<lparr>entities := entities q @ [e]\<rparr>)) ENTITY_ADDED"
    using assms by (simp add: calm_query_def)
  from Query_dispatch_total [OF this] show ?thesis by (simp add: Query_addEntity_def)
qed

lemma Query_removeEntity_total:
  assumes "calm_query q"
  shows "\<exists>r. Query_removeEntity e (q, w) = Inr r"
proof (cases "indexOf (entities q) e = -1")
  case True
  then show ?thesis by (simp add: Query_removeEntity_def)
next
  case False
  have "quiet_topic (eventDispatcher (q\<lparr>entities := splice1 (indexOf (entities q) e) (entities q)\<rparr>)) ENTITY_REMOVED_q"
    using assms by (simp add: calm_query_def)
  from Query_dispatch_total [OF this] False show ?thesis by (simp add: Query_removeEntity_def Let_def)
qed

lemma onEntityComponentAdded_step_total:
  "calm_query q \<Longrightarrow> \<exists>r. onEntityComponentAdded_step e C (q, w) = Inr r"
  using Query_addEntity_total [of q e w] Query_removeEntity_total [of q e w]
  by (simp add: onEntityComponentAdded_step_def)

lemma onEntityComponentRemoved_step_total:
  "calm_query q \<Longrightarrow> \<exists>r. onEntityComponentRemoved_step e C (q, w) = Inr r"
  using Query_addEntity_total [of q e w] Query_removeEntity_total [of q e w]
  by (simp add: onEntityComponentRemoved_step_def)

lemma onEntityRemoved_step_total:
  "calm_query q \<Longrightarrow> \<exists>r. onEntityRemoved_step e (q, w) = Inr r"
  using Query_removeEntity_total [of q e w]
  by (simp add: onEntityRemoved_step_def)

lemma each_query_total:
  assumes step: "\<And>q w. calm_query q \<Longrightarrow> \<exists>r. f (q, w) = Inr r"
  shows "list_all calm_query qs \<Longrightarrow> \<exists>r. each_query f qs w = Inr r"
proof (induction qs arbitrary: w)
  case Nil
  then show ?case by simp
next
  case (Cons q qs)
  from Cons.prems have cq: "calm_query q" and cqs: "list_all calm_query qs" by simp_all
  from step [OF cq, of w] obtain r1 where "f (q, w) = Inr r1" by blast
  then obtain q1 w1 where s1: "f (q, w) = Inr (q1, w1)" by (cases r1) simp
  from Cons.IH [OF cqs, of w1] obtain r2 where "each_query f qs w1 = Inr r2" by blast
  then obtain qs1 w2 where s2: "each_query f qs w1 = Inr (qs1, w2)" by (cases r2) simp
  show ?case by (simp add: s1 s2)
qed

lemma for_queries_total:
  assumes step: "\<And>q w. calm_query q \<Longrightarrow> \<exists>r. f (q, w) = Inr r"
    and "calm w"
  shows "\<exists>w'. for_queries f w = Inr w'"
proof -
  from assms(2) have "list_all calm_query (qm_queries w)" by (simp add: calm_def)
  from each_query_total [of f, OF step this, of w] obtain r where
    "each_query f (qm_queries w) w = Inr r" by blast
  then show ?thesis by (cases r) (simp add: for_queries_def)
qed

lemma list_all2_static_calm:
  assumes "list_all2 (\<lambda>q q'. qstatic q' = qstatic q) qs qs'"
  shows "list_all calm_query qs' = list_all calm_query qs"
  using assms
proof (induction rule: list_all2_induct)
  case Nil
  show ?case by simp
next
  case (Cons q qs q' qs')
  from calm_query_static [OF Cons.hyps(1)] Cons.IH show ?case by simp
qed

lemma calm_transfer:
  assumes "a_listeners (core w') = a_listeners (core w)"
    and "list_all2 (\<lambda>q q'. qstatic q' = qstatic q) (qm_queries w) (qm_queries w')"
  shows "calm w' = calm w"
proof -
  have "listeners (em_eventDispatcher w') = listeners (em_eventDispatcher w)"
    using assms(1) by (simp add: core_def)
  then show ?thesis
    using list_all2_static_calm [OF assms(2)] by (simp add: calm_def quiet_topic_def)
qed

lemma em_dispatch_calm:
  assumes "em_dispatch ev p w = Inr w'"
  shows "calm w' = calm w"
proof -
  from em_dispatch_Inr [OF assms] obtain sy where
    "w' = w\<lparr>em_eventDispatcher := bump (em_eventDispatcher w), systems := sy\<rparr>" by blast
  then show ?thesis by (simp add: calm_def quiet_topic_def bump_def)
qed

lemma R_rem_static: "list_all2 (R_rem e C tys) qs qs' \<Longrightarrow> list_all2 (\<lambda>q q'. qstatic q' = qstatic q) qs qs'"
  by (erule list_all2_mono) (simp add: R_rem_def)

lemma R_add_static: "list_all2 (R_add e C tys) qs qs' \<Longrightarrow> list_all2 (\<lambda>q q'. qstatic q' = qstatic q) qs qs'"
  by (erule list_all2_mono) (simp add: R_add_def)

lemma R_gone_static: "list_all2 (R_gone e) qs qs' \<Longrightarrow> list_all2 (\<lambda>q q'. qstatic q' = qstatic q) qs qs'"
  by (erule list_all2_mono) (simp add: R_gone_def)

lemma onEntityComponentRemoved_total:
  assumes "calm w"
  shows "\<exists>w'. onEntityComponentRemoved e C w = Inr w'"
proof -
  have "\<And>q w. calm_query q \<Longrightarrow> \<exists>r. onEntityComponentRemoved_step e C (q, w) = Inr r"
    by (rule onEntityComponentRemoved_step_total)
  from for_queries_total [of "onEntityComponentRemoved_step e C", OF this assms] show ?thesis
    by (simp add: onEntityComponentRemoved_def)
qed

lemma onEntityComponentAdded_total:
  assumes "calm w"
  shows "\<exists>w'. onEntityComponentAdded e C w = Inr w'"
proof -
  have "\<And>q w. calm_query q \<Longrightarrow> \<exists>r. onEntityComponentAdded_step e C (q, w) = Inr r"
    by (rule onEntityComponentAdded_step_total)
  from for_queries_total [of "onEntityComponentAdded_step e C", OF this assms] show ?thesis
    by (simp add: onEntityComponentAdded_def)
qed

lemma onEntityRemoved_total:
  assumes "calm w"
  shows "\<exists>w'. onEntityRemoved e w = Inr w'"
proof -
  have "\<And>q w. calm_query q \<Longrightarrow> \<exists>r. onEntityRemoved_step e (q, w) = Inr r"
    by (rule onEntityRemoved_step_total)
  from for_queries_total [of "onEntityRemoved_step e", OF this assms] show ?thesis
    by (simp add: onEntityRemoved_def)
qed

lemma onEntityComponentRemoved_calm:
  assumes "onEntityComponentRemoved e C w = Inr w'"
  shows "calm w' = calm w"
proof -
  from onEntityComponentRemoved_rel [OF assms] have f: "qframe w w'"
    and r: "list_all2 (R_rem e C (ComponentTypes (heap w e))) (qm_queries w) (qm_queries w')" by simp_all
  from qframe_fields(1) [OF f] have "a_listeners (core w') = a_listeners (core w)" by simp
  from calm_transfer [OF this R_rem_static [OF r]] show ?thesis .
qed

lemma entityRemoveComponent_total:
  assumes c: "calm w"
    and p: "force \<Longrightarrow> componentPropertyName C \<in> a_pools (core w)"
  shows "\<exists>w'. entityRemoveComponent e C force w = Inr w'"
proof (cases "C \<in> set (ComponentTypes (heap w e))")
  case False
  then show ?thesis by (simp add: entityRemoveComponent_absent)
next
  case True
  then have ne: "indexOf (ComponentTypes (heap w e)) C \<noteq> -1" by (simp add: indexOf_absent)
  from c have "quiet_topic (em_eventDispatcher w) COMPONENT_REMOVE" by (simp add: calm_def)
  from em_dispatch_total [OF this] obtain w1 where
    d1: "em_dispatch COMPONENT_REMOVE (e, CtorArg C) w = Inr w1" by blast
  have c1: "calm w1" using em_dispatch_calm [OF d1] c by simp
  from onEntityComponentRemoved_total [OF c1] obtain w2 where
    o2: "onEntityComponentRemoved e C w1 = Inr w2" by blast
  show ?thesis
  proof (cases force)
    case False
    then show ?thesis using ne d1 o2
      by (simp add: entityRemoveComponent_def Let_def and_then_def)
  next
    case True
    from onEntityComponentRemoved_rel [OF o2] have "qframe w1 w2" by simp
    from qframe_fields(1) [OF this] em_dispatch_core(1) [OF d1]
    have "a_pools (core w2) = a_pools (core w)" by simp
    with p [OF True] have "componentPropertyName C \<in> a_pools (core w2)" by simp
    from entityRemoveComponentSync_total [OF this] obtain w3 where
      "entityRemoveComponentSync e C (indexOf (ComponentTypes (heap w e)) C) w2 = Inr w3" by blast
    then show ?thesis using ne d1 o2 True
      by (simp add: entityRemoveComponent_def Let_def and_then_def)
  qed
qed

text \<open>
  C10: in a calm world, for an entity \<open>e\<close> that has a world and owns \<open>C\<close>:
  \<open>removeComponent(C)\<close> without force returns, and so does a second one right after
  it, before any \<open>processDeferredRemoval\<close>. After the first call \<open>e\<close> still owns \<open>C\<close>,
  so the second is not the no-op of an unknown component: each call dispatches
  \<open>COMPONENT_REMOVE\<close> (the counter \<open>fired\<close> goes up by one, then by one again) and
  each appends \<open>C\<close> to the pending removals of \<open>e\<close>, which end with \<open>C\<close> twice.
\<close>

theorem deferred_removal_twice:
  assumes c: "calm w" and a: "has_world (heap w e)" and o: "C \<in> set (ComponentTypes (heap w e))"
  shows "\<exists>w1 w2.
           Entity_removeComponent e C False w = Inr w1 \<and>
           Entity_removeComponent e C False w1 = Inr w2 \<and>
           C \<in> set (ComponentTypes (heap w1 e)) \<and> w1 \<noteq> w \<and> w2 \<noteq> w1 \<and>
           fired (em_eventDispatcher w1) = fired (em_eventDispatcher w) + 1 \<and>
           fired (em_eventDispatcher w2) = fired (em_eventDispatcher w) + 2 \<and>
           componentsToRemove (heap w1 e) = componentsToRemove (heap w e) @ [C] \<and>
           componentsToRemove (heap w2 e) = componentsToRemove (heap w e) @ [C, C]"
proof -
  from entityRemoveComponent_total [OF c, of False C e] obtain w1 where
    r1: "entityRemoveComponent e C False w = Inr w1" by auto
  from entityRemoveComponent_effect [OF r1 o] have
    q1: "list_all2 (R_rem e C (ComponentTypes (heap w e))) (qm_queries w) (qm_queries w1)" and
    c1: "core w1 = (core w)\<lparr>a_pending := (a_pending (core w))(e := componentsToRemove (heap w e) @ [C]),
                            a_withComps := (if componentsToRemove (heap w e) = []
                                            then entitiesWithComponentsToRemove w @ [e]
                                            else entitiesWithComponentsToRemove w),
                            a_fired := a_fired (core w) + 1\<rparr>" by simp_all
  have t1: "ComponentTypes (heap w1 e) = ComponentTypes (heap w e)"
    using arg_cong [OF c1, of "\<lambda>a. a_types a e"] by (simp add: core_apply)
  have a1: "has_world (heap w1 e)"
    using arg_cong [OF c1, of "\<lambda>a. a_alive a e"] a by (simp add: core_apply)
  have p1: "componentsToRemove (heap w1 e) = componentsToRemove (heap w e) @ [C]"
    using arg_cong [OF c1, of "\<lambda>a. a_pending a e"] by (simp add: core_apply)
  have f1: "fired (em_eventDispatcher w1) = fired (em_eventDispatcher w) + 1"
    using arg_cong [OF c1, of a_fired] by (simp add: core_apply)
  have "a_listeners (core w1) = a_listeners (core w)" using c1 by simp
  from calm_transfer [OF this R_rem_static [OF q1]] c have cw1: "calm w1" by simp
  have o1: "C \<in> set (ComponentTypes (heap w1 e))" using o t1 by simp
  from entityRemoveComponent_total [OF cw1, of False C e] obtain w2 where
    r2: "entityRemoveComponent e C False w1 = Inr w2" by auto
  from entityRemoveComponent_effect [OF r2 o1] have
    c2: "core w2 = (core w1)\<lparr>a_pending := (a_pending (core w1))(e := componentsToRemove (heap w1 e) @ [C]),
                            a_withComps := (if componentsToRemove (heap w1 e) = []
                                            then entitiesWithComponentsToRemove w1 @ [e]
                                            else entitiesWithComponentsToRemove w1),
                            a_fired := a_fired (core w1) + 1\<rparr>" by simp
  have p2: "componentsToRemove (heap w2 e) = componentsToRemove (heap w1 e) @ [C]"
    using arg_cong [OF c2, of "\<lambda>a. a_pending a e"] by (simp add: core_apply)
  have f2: "fired (em_eventDispatcher w2) = fired (em_eventDispatcher w1) + 1"
    using arg_cong [OF c2, of a_fired] by (simp add: core_apply)
  have n1: "w1 \<noteq> w" using f1 by auto
  have n2: "w2 \<noteq> w1" using f2 by auto
  show ?thesis
    using r1 r2 a a1 o1 p1 p2 f1 f2 n1 n2 by (simp add: Entity_removeComponent_def)
qed

lemma owning_calm: "calm owning"
  by (simp add: owning_def calm_def calm_query_def quiet_topic_def model_defs key_evals)

lemma owning_entity:
  "has_world (heap owning 1)" "ComponentTypes (heap owning 1) = [A]" "componentsToRemove (heap owning 1) = []"
  by (simp_all add: owning_def model_defs key_evals)

theorem deferred_removal_twice_witness:
  "calm owning \<and> has_world (heap owning 1) \<and> A \<in> set (ComponentTypes (heap owning 1)) \<and>
   (\<exists>w1 w2.
           Entity_removeComponent 1 A False owning = Inr w1 \<and>
           Entity_removeComponent 1 A False w1 = Inr w2 \<and>
           A \<in> set (ComponentTypes (heap w1 1)) \<and> w1 \<noteq> owning \<and> w2 \<noteq> w1 \<and>
           fired (em_eventDispatcher w1) = fired (em_eventDispatcher owning) + 1 \<and>
           fired (em_eventDispatcher w2) = fired (em_eventDispatcher owning) + 2 \<and>
           componentsToRemove (heap w1 1) = [A] \<and>
           componentsToRemove (heap w2 1) = [A, A])"
proof -
  have o: "A \<in> set (ComponentTypes (heap owning 1))" using owning_entity(2) by simp
  from deferred_removal_twice [OF owning_calm owning_entity(1) o]
  show ?thesis using owning_calm owning_entity by simp
qed

section \<open>The index of queries when no removal is deferred\<close>

text \<open>
  \<open>index_ok\<close> holds in a new world and every call that defers no removal keeps it.
\<close>

lemma qstatic_fields:
  "qstatic q' = qstatic q \<Longrightarrow>
     key q' = key q \<and> Components q' = Components q \<and> NotComponents q' = NotComponents q"
  by (simp add: qstatic_def)














lemma query_ok_cleared:
  assumes "query_ok (tys(e := [])) store q" "NotComponents q = []"
  shows "e \<notin> set (entities q)"
proof
  assume "e \<in> set (entities q)"
  with assms have "Components q \<noteq> []" "set (Components q) \<subseteq> set ((tys(e := [])) e)"
    unfolding query_ok_def by blast+
  then show False by simp
qed



































section \<open>The order in which a tick executes the systems\<close>








































end
